theory Spec2Isabelle
  imports Complex_Main "HOL-Library.Word"
begin

section \<open>Shared data of the backend\<close>

text \<open>
  The account class of the backend (\<^verbatim>\<open>models/user\<close>): the object a query result is
  wrapped in. Its identifier field is called \<^verbatim>\<open>id\<close> in the source; it is \<open>uid\<close> here,
  since \<open>id\<close> is the identity function of HOL. Timestamps are natural numbers.
\<close>

record User =
  uid :: string
  email :: string
  passwordHash :: string
  enrolled :: bool
  createdAt :: nat

text \<open>
  An HTTP response: the status code and the JSON body. \<^verbatim>\<open>res.json(...)\<close> without a
  preceding \<^verbatim>\<open>res.status(...)\<close> answers with status 200. Each constructor of \<open>body\<close> is one
  of the object shapes the controller sends.
\<close>

record user_view =
  view_id :: string
  view_email :: string
  view_enrolled :: bool

datatype body =
    ErrorBody string
  | AuthBody string user_view string
  | BiometricVerifyBody bool string
  | BiometricFailedBody bool string string
  | EnrollCompleteBody bool string
  | ProfileBody user_view

record response =
  status :: nat
  body :: body

section \<open>The verification handler\<close>

text \<open>
  The request body of \<^verbatim>\<open>POST /verify-biometric\<close>. A field that the JSON body does not
  carry reads as \<^verbatim>\<open>undefined\<close>, which is \<open>None\<close> here. The optional field \<^verbatim>\<open>actionID\<close> of
  the request type is left out: the handler does not read it.
\<close>

record BiometricVerifyRequest =
  csid :: "string option"
  videoValidated :: "bool option"

text \<open>\<^verbatim>\<open>!csid\<close> on a string or \<^verbatim>\<open>undefined\<close>: true for \<^verbatim>\<open>undefined\<close> and for the empty string.\<close>

definition not_string :: "string option \<Rightarrow> bool" where
  "not_string s = (case s of None \<Rightarrow> True | Some v \<Rightarrow> v = [])"

text \<open>\<^verbatim>\<open>!videoValidated\<close> on a boolean or \<^verbatim>\<open>undefined\<close>.\<close>

definition not_bool :: "bool option \<Rightarrow> bool" where
  "not_bool b = (case b of None \<Rightarrow> True | Some v \<Rightarrow> \<not> v)"

text \<open>
  The regular expression
  \<^verbatim>\<open>/^[0-9a-f]{8}-[0-9a-f]{4}-[0-9a-f]{4}-[0-9a-f]{4}-[0-9a-f]{12}$/i\<close>
  as a matcher that consumes the string from the left. With the flag \<^verbatim>\<open>i\<close> the class
  \<^verbatim>\<open>[0-9a-f]\<close> also matches \<^verbatim>\<open>A\<close> to \<^verbatim>\<open>F\<close>; \<^verbatim>\<open>$\<close> without the flag \<^verbatim>\<open>m\<close> matches at the
  end of the input only.
\<close>

definition hexDigit :: "char \<Rightarrow> bool" where
  "hexDigit c = (c \<in> set ''0123456789abcdefABCDEF'')"

fun hexRun :: "nat \<Rightarrow> string \<Rightarrow> string option" where
  "hexRun 0 s = Some s"
| "hexRun (Suc n) [] = None"
| "hexRun (Suc n) (c # s) = (if hexDigit c then hexRun n s else None)"

fun dash :: "string \<Rightarrow> string option" where
  "dash [] = None"
| "dash (c # s) = (if c = CHR ''-'' then Some s else None)"

definition uuidRegex_test :: "string \<Rightarrow> bool" where
  "uuidRegex_test s =
     (Option.bind (Option.bind (Option.bind (Option.bind (Option.bind (Option.bind
        (Option.bind (Option.bind (hexRun 8 s) dash) (hexRun 4)) dash) (hexRun 4)) dash)
        (hexRun 4)) dash) (hexRun 12) = Some [])"

text \<open>
  \<^verbatim>\<open>uuidRegex.test(csid)\<close>: the argument is converted to a string first, so
  \<^verbatim>\<open>undefined\<close> is tested as the nine characters of its name.
\<close>

definition test_csid :: "string option \<Rightarrow> bool" where
  "test_csid c = uuidRegex_test (case c of None \<Rightarrow> ''undefined'' | Some v \<Rightarrow> v)"

text \<open>
  The body of the handler is a sequence of statements of three kinds: a guarded
  response followed by \<^verbatim>\<open>return\<close>, a response, and \<^verbatim>\<open>return\<close>. \<open>exec\<close> runs a
  sequence and gives the responses sent, in order; nothing after a \<^verbatim>\<open>return\<close> runs.
  No statement of the body raises on a request body of these types, so the \<^verbatim>\<open>catch\<close>
  branch with its status 500 is not among the statements.
\<close>

datatype stmt =
    IfRespondReturn bool response
  | Respond response
  | Return

fun exec :: "stmt list \<Rightarrow> response list" where
  "exec [] = []"
| "exec (IfRespondReturn c r # ss) = (if c then [r] else exec ss)"
| "exec (Respond r # ss) = r # exec ss"
| "exec (Return # ss) = []"

definition verifyBiometric_body :: "User \<Rightarrow> BiometricVerifyRequest \<Rightarrow> stmt list" where
  "verifyBiometric_body user req =
     [IfRespondReturn (not_string (csid req))
        \<lparr>status = 400, body = ErrorBody ''CSID is required''\<rparr>,
      IfRespondReturn (not_bool (videoValidated req))
        \<lparr>status = 400, body = ErrorBody
           ''Video stream validation required. Camera must be active and capturing.''\<rparr>,
      IfRespondReturn (\<not> test_csid (csid req))
        \<lparr>status = 400, body = ErrorBody ''Invalid CSID format''\<rparr>,
      IfRespondReturn (\<not> enrolled user)
        \<lparr>status = 400, body = ErrorBody
           ''User must complete enrollment before biometric verification''\<rparr>,
      Respond \<lparr>status = 200, body = BiometricVerifyBody True
           ''Biometric verification successful''\<rparr>,
      Return,
      Respond \<lparr>status = 403, body = BiometricFailedBody False
           ''Biometric verification failed''
           ''Biometric data did not match enrolled profile''\<rparr>]"

definition verifyBiometric :: "User \<Rightarrow> BiometricVerifyRequest \<Rightarrow> response list" where
  "verifyBiometric user req = exec (verifyBiometric_body user req)"

text \<open>
  The decision rule as the specification words it: four conditions in a fixed order,
  the first failing one gives the reason, and none failing accepts.
\<close>

datatype reject_reason =
    MissingSession
  | LivenessRequired
  | InvalidSessionFormat
  | MustEnrollFirst

datatype decision = Reject reject_reason | Accept

fun first_failing :: "(bool \<times> reject_reason) list \<Rightarrow> decision" where
  "first_failing [] = Accept"
| "first_failing ((fails, why) # cs) = (if fails then Reject why else first_failing cs)"

definition session_missing :: "string option \<Rightarrow> bool" where
  "session_missing c = (c = None \<or> c = Some [])"

definition liveness_asserted :: "bool option \<Rightarrow> bool" where
  "liveness_asserted v = (v = Some True)"

definition verification_rule :: "User \<Rightarrow> BiometricVerifyRequest \<Rightarrow> decision" where
  "verification_rule user req =
     first_failing
       [(session_missing (csid req), MissingSession),
        (\<not> liveness_asserted (videoValidated req), LivenessRequired),
        (\<not> test_csid (csid req), InvalidSessionFormat),
        (\<not> enrolled user, MustEnrollFirst)]"

fun decision_response :: "decision \<Rightarrow> response" where
  "decision_response (Reject MissingSession) =
     \<lparr>status = 400, body = ErrorBody ''CSID is required''\<rparr>"
| "decision_response (Reject LivenessRequired) =
     \<lparr>status = 400, body = ErrorBody
        ''Video stream validation required. Camera must be active and capturing.''\<rparr>"
| "decision_response (Reject InvalidSessionFormat) =
     \<lparr>status = 400, body = ErrorBody ''Invalid CSID format''\<rparr>"
| "decision_response (Reject MustEnrollFirst) =
     \<lparr>status = 400, body = ErrorBody
        ''User must complete enrollment before biometric verification''\<rparr>"
| "decision_response Accept =
     \<lparr>status = 200, body = BiometricVerifyBody True ''Biometric verification successful''\<rparr>"

section \<open>The user store\<close>

text \<open>
  A text value of the database. PostgreSQL holds no string with the character of code
  0, and a query that is given one as a parameter raises
  (\<^verbatim>\<open>22021 character_not_in_repertoire\<close>); so the text columns of a row have a type of
  their own, the strings without that character.
\<close>

typedef pg_text = "{s :: string. CHR 0x00 \<notin> set s}"
  morphisms text_of to_text
  by (rule exI [of _ "[]"]) simp

text \<open>
  A row of the table \<^verbatim>\<open>users\<close> of \<^verbatim>\<open>schema.sql\<close>, and the table as the list of its rows
  in insertion order. The store is a value: a query on it answers unless a parameter
  is no text of the database, and an insertion raises in that case and when it
  violates a constraint of the schema.
\<close>

record users_row =
  row_id :: string
  row_email :: pg_text
  password_hash :: pg_text
  row_enrolled :: bool
  created_at :: nat
  updated_at :: nat

type_synonym users = "users_row list"

text \<open>
  What a request takes from outside the store: the library functions
  (\<^verbatim>\<open>String.prototype.toLowerCase\<close>, \<^verbatim>\<open>bcrypt.hash\<close> with its salt, \<^verbatim>\<open>bcrypt.compare\<close>,
  \<^verbatim>\<open>jwt.sign\<close> with the secret and the expiry of the controller), the identifier that
  \<^verbatim>\<open>gen_random_uuid()\<close> draws for an inserted row, and the clock of the database.
\<close>

record env =
  toLowerCase :: "string \<Rightarrow> string"
  bcrypt_hash :: "string \<Rightarrow> nat \<Rightarrow> string"
  bcrypt_compare :: "string \<Rightarrow> string \<Rightarrow> bool"
  jwt_sign :: "string \<Rightarrow> string \<Rightarrow> string"
  gen_random_uuid :: string
  CURRENT_TIMESTAMP :: nat

datatype db_error =
    character_not_in_repertoire
  | string_data_right_truncation
  | unique_violation

text \<open>A string that the database refuses as a text parameter.\<close>

definition no_text :: "string \<Rightarrow> bool" where
  "no_text s = (CHR 0x00 \<in> set s)"

definition from_row :: "users_row \<Rightarrow> User" where
  "from_row row =
     \<lparr>uid = row_id row, email = text_of (row_email row),
      passwordHash = text_of (password_hash row),
      enrolled = row_enrolled row, createdAt = created_at row\<rparr>"

text \<open>\<^verbatim>\<open>result.rows.length === 0\<close> gives \<^verbatim>\<open>null\<close>, otherwise the first row is wrapped.\<close>

definition first_row :: "users_row list \<Rightarrow> User option" where
  "first_row rows = (case rows of [] \<Rightarrow> None | row # _ \<Rightarrow> Some (from_row row))"

text \<open>
  \<^verbatim>\<open>User.create\<close>: the insertion of a row with the lower-cased email and the flag
  \<^verbatim>\<open>false\<close>. The schema bounds both strings by 255 characters and has the identifier
  and the email unique; a parameter that is no text and a violation raise, which is
  \<open>Inl\<close>.
\<close>

definition create :: "env \<Rightarrow> string \<Rightarrow> string \<Rightarrow> users \<Rightarrow> db_error + (User \<times> users)" where
  "create e email_arg passwordHash_arg db =
     (let lowered = toLowerCase e email_arg
      in if no_text lowered \<or> no_text passwordHash_arg
         then Inl character_not_in_repertoire
         else if 255 < length lowered \<or> 255 < length passwordHash_arg
         then Inl string_data_right_truncation
         else if gen_random_uuid e \<in> set (map row_id db) \<or>
                 lowered \<in> set (map (\<lambda>row. text_of (row_email row)) db)
         then Inl unique_violation
         else
           let row = \<lparr>row_id = gen_random_uuid e,
                       row_email = to_text lowered,
                       password_hash = to_text passwordHash_arg,
                       row_enrolled = False,
                       created_at = CURRENT_TIMESTAMP e,
                       updated_at = CURRENT_TIMESTAMP e\<rparr>
           in Inr (from_row row, db @ [row]))"

text \<open>
  \<^verbatim>\<open>User.findByEmail\<close>: the query with the lower-cased email as its parameter. It raises
  when the parameter is no text of the database.
\<close>

definition findByEmail :: "env \<Rightarrow> string \<Rightarrow> users \<Rightarrow> db_error + User option" where
  "findByEmail e email_arg db =
     (let lowered = toLowerCase e email_arg
      in if no_text lowered then Inl character_not_in_repertoire
         else Inr (first_row (filter (\<lambda>row. text_of (row_email row) = lowered) db)))"

definition findById :: "string \<Rightarrow> users \<Rightarrow> User option" where
  "findById id_arg db = first_row (filter (\<lambda>row. row_id row = id_arg) db)"

text \<open>
  \<^verbatim>\<open>User.markEnrolled\<close>: the update sets the flag and the update time of every row with
  the given identifier and returns the rows it changed.
\<close>

definition markEnrolled :: "env \<Rightarrow> string \<Rightarrow> users \<Rightarrow> User option \<times> users" where
  "markEnrolled e userId db =
     (let db' = map (\<lambda>row. if row_id row = userId
                             then row\<lparr>row_enrolled := True, updated_at := CURRENT_TIMESTAMP e\<rparr>
                             else row) db
      in (first_row (filter (\<lambda>row. row_id row = userId) db'), db'))"

section \<open>The controller\<close>

text \<open>
  The request bodies. A handler reads every field through \<^verbatim>\<open>!field\<close> first, so after
  that guard the field is a non-empty string and \<open>the\<close> reads it.
\<close>

record RegisterRequest =
  reg_email :: "string option"
  reg_password :: "string option"

record LoginRequest =
  login_email :: "string option"
  login_password :: "string option"

record EnrollCompleteRequest =
  enroll_csid :: "string option"

definition view_of :: "User \<Rightarrow> user_view" where
  "view_of user = \<lparr>view_id = uid user, view_email = email user, view_enrolled = enrolled user\<rparr>"

definition internal_error :: response where
  "internal_error = \<lparr>status = 500, body = ErrorBody ''Internal server error''\<rparr>"

text \<open>
  Each handler runs in a \<^verbatim>\<open>try\<close> whose \<^verbatim>\<open>catch\<close> answers 500: what a query raises ends
  there, with the store as it was.
\<close>

definition register :: "env \<Rightarrow> RegisterRequest \<Rightarrow> users \<Rightarrow> response \<times> users" where
  "register e req db =
     (if not_string (reg_email req) \<or> not_string (reg_password req)
      then (\<lparr>status = 400, body = ErrorBody ''Email and password are required''\<rparr>, db)
      else case findByEmail e (the (reg_email req)) db of
        Inl err \<Rightarrow> (internal_error, db)
      | Inr (Some existingUser) \<Rightarrow>
          (\<lparr>status = 400, body = ErrorBody ''User already exists''\<rparr>, db)
      | Inr None \<Rightarrow>
          (let passwordHash_new = bcrypt_hash e (the (reg_password req)) 10
           in case create e (the (reg_email req)) passwordHash_new db of
                Inl err \<Rightarrow> (internal_error, db)
              | Inr (user, db') \<Rightarrow>
                  (\<lparr>status = 201,
                    body = AuthBody ''User registered successfully'' (view_of user)
                             (jwt_sign e (uid user) (email user))\<rparr>, db')))"

definition login :: "env \<Rightarrow> LoginRequest \<Rightarrow> users \<Rightarrow> response" where
  "login e req db =
     (if not_string (login_email req) \<or> not_string (login_password req)
      then \<lparr>status = 400, body = ErrorBody ''Email and password are required''\<rparr>
      else case findByEmail e (the (login_email req)) db of
        Inl err \<Rightarrow> internal_error
      | Inr None \<Rightarrow> \<lparr>status = 401, body = ErrorBody ''Invalid credentials''\<rparr>
      | Inr (Some user) \<Rightarrow>
          if \<not> bcrypt_compare e (the (login_password req)) (passwordHash user)
          then \<lparr>status = 401, body = ErrorBody ''Invalid credentials''\<rparr>
          else \<lparr>status = 200,
                 body = AuthBody ''Login successful'' (view_of user)
                          (jwt_sign e (uid user) (email user))\<rparr>)"

text \<open>
  \<^verbatim>\<open>completeEnrollment\<close> awaits \<^verbatim>\<open>User.markEnrolled(userId)\<close> and drops what it returns.
\<close>

definition completeEnrollment ::
    "env \<Rightarrow> User \<Rightarrow> EnrollCompleteRequest \<Rightarrow> users \<Rightarrow> response \<times> users" where
  "completeEnrollment e user req db =
     (if not_string (enroll_csid req)
      then (\<lparr>status = 400, body = ErrorBody ''CSID is required''\<rparr>, db)
      else (\<lparr>status = 200,
             body = EnrollCompleteBody True ''Biometric enrollment completed successfully''\<rparr>,
            snd (markEnrolled e (uid user) db)))"

definition getProfile :: "User \<Rightarrow> response" where
  "getProfile user = \<lparr>status = 200, body = ProfileBody (view_of user)\<rparr>"

text \<open>
  The routes of \<^verbatim>\<open>authRoutes\<close>. A request to a protected route reaches its handler with
  the account that the token middleware attached as \<^verbatim>\<open>req.user\<close>; that account is part
  of the request here. \<open>handle\<close> gives the responses sent and the store afterwards.
\<close>

datatype request =
    PostRegister RegisterRequest
  | PostLogin LoginRequest
  | PostVerifyBiometric User BiometricVerifyRequest
  | PostEnrollComplete User EnrollCompleteRequest
  | GetProfile User

fun handle :: "env \<Rightarrow> request \<Rightarrow> users \<Rightarrow> response list \<times> users" where
  "handle e (PostRegister req) db = (let (res, db') = register e req db in ([res], db'))"
| "handle e (PostLogin req) db = ([login e req db], db)"
| "handle e (PostVerifyBiometric user req) db = (verifyBiometric user req, db)"
| "handle e (PostEnrollComplete user req) db =
     (let (res, db') = completeEnrollment e user req db in ([res], db'))"
| "handle e (GetProfile user) db = ([getProfile user], db)"

text \<open>A run of the server: requests handled one after the other, each with its own \<open>env\<close>.\<close>

fun serve :: "(env \<times> request) list \<Rightarrow> users \<Rightarrow> users" where
  "serve [] db = db"
| "serve ((e, rq) # rest) db = serve rest (snd (handle e rq db))"

text \<open>
  The flag of every row that was in the store is kept or raised, row by row; rows are
  never removed or reordered.
\<close>

definition enrolled_kept :: "users \<Rightarrow> users \<Rightarrow> bool" where
  "enrolled_kept db db' =
     (length db \<le> length db' \<and>
      list_all2 (\<lambda>row row'. row_id row' = row_id row \<and> (row_enrolled row \<longrightarrow> row_enrolled row'))
        db (take (length db) db'))"

fun is_enroll_complete :: "request \<Rightarrow> bool" where
  "is_enroll_complete (PostEnrollComplete user req) = True"
| "is_enroll_complete rq = False"

text \<open>Stored emails are in lower case: what \<^verbatim>\<open>User.create\<close> stores.\<close>

definition emails_lowercased :: "env \<Rightarrow> users \<Rightarrow> bool" where
  "emails_lowercased e db =
     list_all (\<lambda>row. toLowerCase e (text_of (row_email row)) = text_of (row_email row)) db"

text \<open>An email is present in the store when compared case-insensitively.\<close>

definition email_present :: "env \<Rightarrow> string \<Rightarrow> users \<Rightarrow> bool" where
  "email_present e email_arg db =
     list_ex (\<lambda>row. toLowerCase e (text_of (row_email row)) = toLowerCase e email_arg) db"

text \<open>
  The account of a login, read off the rows: the first row whose email is the
  lower-cased email of the request. The credentials match when there is such a row and
  the submitted password matches the hash stored in it. Emails are unique in a store
  that the schema has guarded, and then any row with that email is the account.
\<close>

definition stored_account :: "env \<Rightarrow> string \<Rightarrow> users \<Rightarrow> users_row option" where
  "stored_account e email_arg db =
     List.find (\<lambda>row. text_of (row_email row) = toLowerCase e email_arg) db"

definition credentials_match :: "env \<Rightarrow> string \<Rightarrow> string \<Rightarrow> users \<Rightarrow> bool" where
  "credentials_match e email_arg password_arg db =
     (case stored_account e email_arg db of
        None \<Rightarrow> False
      | Some row \<Rightarrow> bcrypt_compare e password_arg (text_of (password_hash row)))"

definition row_matches :: "env \<Rightarrow> string \<Rightarrow> string \<Rightarrow> users_row \<Rightarrow> bool" where
  "row_matches e email_arg password_arg row =
     (text_of (row_email row) = toLowerCase e email_arg \<and>
      bcrypt_compare e password_arg (text_of (password_hash row)))"

definition emails_unique :: "users \<Rightarrow> bool" where
  "emails_unique db = distinct (map (\<lambda>row. text_of (row_email row)) db)"

section \<open>The liveness heuristic of the login page\<close>

text \<open>
  What one tick of the interval of \<^verbatim>\<open>handleBiometricVerification\<close> reads from the page:
  whether the camera container is still mounted, and the video element inside it with
  its stream and the tracks of the stream. The dimensions of the element are
  \<^verbatim>\<open>videoWidth\<close> and \<^verbatim>\<open>videoHeight\<close> in the source. \<^verbatim>\<open>getSettings()\<close> may leave a dimension
  \<^verbatim>\<open>undefined\<close>, and a browser without \<^verbatim>\<open>getCapabilities\<close> raises where the tick calls it.
\<close>

datatype track_state = Live | Ended

record MediaStreamTrack =
  track_readyState :: track_state
  muted :: bool
  enabled :: bool
  settings_width :: "nat option"
  settings_height :: "nat option"
  has_getCapabilities :: bool

record MediaStream =
  active :: bool
  getVideoTracks :: "MediaStreamTrack list"

record HTMLVideoElement =
  paused :: bool
  ended :: bool
  readyState :: nat
  srcObject :: "MediaStream option"
  element_videoWidth :: nat
  element_videoHeight :: nat

record page =
  container :: bool
  video :: "HTMLVideoElement option"

text \<open>The four signals of a tick, and the two counters that live across ticks.\<close>

record signals =
  hasVideo :: bool
  isPlaying :: bool
  hasActiveStream :: bool
  hasVideoTracks :: bool

record capture_state =
  captureAttempts :: nat
  validCaptureCount :: nat

datatype capture_outcome =
    Waiting capture_state
  | Failed string
  | Proceed capture_state

definition maxAttempts :: nat where
  "maxAttempts = 30"

definition requiredValidCaptures :: nat where
  "requiredValidCaptures = 20"

text \<open>A number or \<^verbatim>\<open>undefined\<close> as a condition, and compared with zero.\<close>

definition truthy :: "nat option \<Rightarrow> bool" where
  "truthy n = (case n of None \<Rightarrow> False | Some v \<Rightarrow> v \<noteq> 0)"

definition above_zero :: "nat option \<Rightarrow> bool" where
  "above_zero n = (case n of None \<Rightarrow> False | Some v \<Rightarrow> 0 < v)"

text \<open>
  \<^verbatim>\<open>hasVideoTracks\<close> for the first live track, in the order of the assignments of the
  tick: enabled and not muted; then, when both settings are there, the test of the
  settings in its place; then, when it holds and the element has dimensions, the test
  of those in its place.
\<close>

definition trackSignal :: "HTMLVideoElement \<Rightarrow> MediaStreamTrack \<Rightarrow> bool" where
  "trackSignal videoElement track =
     (let byTrack = (\<not> muted track \<and> enabled track);
          bySettings =
            (if truthy (settings_width track) \<and> truthy (settings_height track)
             then above_zero (settings_width track) \<and> above_zero (settings_height track)
             else byTrack)
      in if bySettings \<and> element_videoWidth videoElement \<noteq> 0 \<and>
            element_videoHeight videoElement \<noteq> 0
         then 0 < element_videoWidth videoElement \<and> 0 < element_videoHeight videoElement
         else bySettings)"

text \<open>
  The signals of a tick. Where the call of \<^verbatim>\<open>getCapabilities\<close> raises, the \<^verbatim>\<open>catch\<close> sets
  \<^verbatim>\<open>hasVideoTracks\<close> to false and leaves \<^verbatim>\<open>hasActiveStream\<close> as assigned.
\<close>

definition readSignals :: "HTMLVideoElement option \<Rightarrow> signals" where
  "readSignals element =
     (case element of
        None \<Rightarrow>
          \<lparr>hasVideo = False, isPlaying = False, hasActiveStream = False, hasVideoTracks = False\<rparr>
      | Some videoElement \<Rightarrow>
          (let playing = (\<not> paused videoElement \<and> \<not> ended videoElement \<and>
                           2 \<le> readyState videoElement)
           in case srcObject videoElement of
                None \<Rightarrow>
                  \<lparr>hasVideo = True, isPlaying = playing, hasActiveStream = False,
                   hasVideoTracks = False\<rparr>
              | Some stream \<Rightarrow>
                  (case filter (\<lambda>track. track_readyState track = Live) (getVideoTracks stream) of
                     [] \<Rightarrow>
                       \<lparr>hasVideo = True, isPlaying = playing, hasActiveStream = active stream,
                        hasVideoTracks = False\<rparr>
                   | track # _ \<Rightarrow>
                       \<lparr>hasVideo = True, isPlaying = playing, hasActiveStream = active stream,
                        hasVideoTracks =
                          (if has_getCapabilities track then trackSignal videoElement track
                           else False)\<rparr>)))"

definition isValidCapture :: "signals \<Rightarrow> bool" where
  "isValidCapture s = (hasVideo s \<and> isPlaying s \<and> hasActiveStream s \<and> hasVideoTracks s)"

text \<open>
  The callback of the interval. \<open>Waiting\<close> leaves the interval scheduled; \<open>Failed\<close> and
  \<open>Proceed\<close> come after \<^verbatim>\<open>clearInterval\<close>, the second one into the final validation of
  the frame.
\<close>

definition checkCapture :: "page \<Rightarrow> capture_state \<Rightarrow> capture_outcome" where
  "checkCapture p st =
     (let attempts = captureAttempts st + 1
      in if \<not> container p then Failed ''Camera container lost. Please try again.''
         else
           let s = readSignals (video p);
               counted = (if isValidCapture s then validCaptureCount st + 1 else 0)
           in if maxAttempts \<le> attempts \<and> counted < requiredValidCaptures
              then Failed ''Camera is not capturing video properly. Please ensure camera is uncovered, has proper lighting, and your face is visible, then try again.''
              else
                let counted' = (if 0 < counted \<and> \<not> isValidCapture s then 0 else counted)
                in if requiredValidCaptures \<le> counted'
                   then Proceed \<lparr>captureAttempts = attempts, validCaptureCount = counted'\<rparr>
                   else Waiting \<lparr>captureAttempts = attempts, validCaptureCount = counted'\<rparr>)"

fun setInterval :: "page list \<Rightarrow> capture_state \<Rightarrow> capture_outcome" where
  "setInterval [] st = Waiting st"
| "setInterval (p # ps) st =
     (case checkCapture p st of
        Waiting st' \<Rightarrow> setInterval ps st'
      | Failed why \<Rightarrow> Failed why
      | Proceed st' \<Rightarrow> Proceed st')"

definition capture_start :: capture_state where
  "capture_start = \<lparr>captureAttempts = 0, validCaptureCount = 0\<rparr>"

fun passes_streak :: "capture_outcome \<Rightarrow> bool" where
  "passes_streak (Proceed st) = True"
| "passes_streak other = False"

text \<open>A tick that the callback counts: its four signals hold.\<close>

definition counted_tick :: "page \<Rightarrow> bool" where
  "counted_tick p = isValidCapture (readSignals (video p))"

text \<open>
  A valid sample as the specification has it: a video element is bound, it is playing
  with enough data, its stream is active, and the stream has a video track that is
  live, enabled, not muted and of non-zero negotiated dimensions.
\<close>

definition valid_track :: "MediaStreamTrack \<Rightarrow> bool" where
  "valid_track track =
     (track_readyState track = Live \<and> enabled track \<and> \<not> muted track \<and>
      above_zero (settings_width track) \<and> above_zero (settings_height track))"

definition valid_sample :: "page \<Rightarrow> bool" where
  "valid_sample p =
     (case video p of
        None \<Rightarrow> False
      | Some videoElement \<Rightarrow>
          \<not> paused videoElement \<and> \<not> ended videoElement \<and> 2 \<le> readyState videoElement \<and>
          (case srcObject videoElement of
             None \<Rightarrow> False
           | Some stream \<Rightarrow> active stream \<and> list_ex valid_track (getVideoTracks stream)))"

text \<open>
  The ticks \<open>n - 20, \<dots>, n - 1\<close> of a run are all counted: a streak of the required
  length that is complete at tick \<open>n\<close>.
\<close>

definition streak_at :: "page list \<Rightarrow> nat \<Rightarrow> bool" where
  "streak_at ps n =
     (requiredValidCaptures \<le> n \<and> n \<le> length ps \<and>
      list_all counted_tick (take requiredValidCaptures (drop (n - requiredValidCaptures) ps)))"

text \<open>The counter after a run of ticks, the budget and the threshold aside.\<close>

fun count_after :: "nat \<Rightarrow> page list \<Rightarrow> nat" where
  "count_after c [] = c"
| "count_after c (p # ps) = count_after (if counted_tick p then c + 1 else 0) ps"

text \<open>
  From a state with \<open>k\<close> attempts made and \<open>c\<close> counted, the \<open>m\<close>-th further tick is
  within the budget, the container is there at each of these ticks, and the counter
  is at the threshold after them.
\<close>

definition reaches :: "nat \<Rightarrow> nat \<Rightarrow> page list \<Rightarrow> nat \<Rightarrow> bool" where
  "reaches k c ps m =
     (m \<le> length ps \<and> k + m \<le> 30 \<and> list_all container (take m ps) \<and>
      20 \<le> count_after c (take m ps))"

section \<open>The content check of the frame\<close>

text \<open>
  The frame is the \<^verbatim>\<open>Uint8ClampedArray\<close> of \<^verbatim>\<open>getImageData\<close>: four bytes per pixel. A read
  beyond the array gives \<^verbatim>\<open>undefined\<close>, and \<^verbatim>\<open>undefined > 30\<close> is false.
\<close>

definition read_at :: "8 word list \<Rightarrow> nat \<Rightarrow> 8 word option" where
  "read_at data i = (if i < length data then Some (data ! i) else None)"

definition gt30 :: "8 word option \<Rightarrow> bool" where
  "gt30 v = (case v of None \<Rightarrow> False | Some x \<Rightarrow> 30 < x)"

function countNonBlack :: "8 word list \<Rightarrow> nat \<Rightarrow> nat \<Rightarrow> nat \<Rightarrow> nat" where
  "countNonBlack data sampleSize i nonBlackPixels =
     (if i < sampleSize
      then countNonBlack data sampleSize (i + 4)
             (if gt30 (read_at data i) \<or> gt30 (read_at data (i + 1)) \<or>
                 gt30 (read_at data (i + 2))
              then nonBlackPixels + 1 else nonBlackPixels)
      else nonBlackPixels)"
  by pat_completeness auto
termination
  by (relation "measure (\<lambda>(data, sampleSize, i, nonBlackPixels). sampleSize - i)") auto

declare countNonBlack.simps [simp del]

text \<open>
  \<^verbatim>\<open>nonBlackPixels / (sampleSize / 4)\<close> as a rational number; \<open>None\<close> is the \<^verbatim>\<open>NaN\<close> of
  \<^verbatim>\<open>0 / 0\<close>, the only division by zero there is, since nothing is counted in an empty
  sample. With at most 2500 sampled pixels, a quotient other than 1/20 is further from
  it than the rounding of a double, so the comparison of the doubles is the comparison
  of the rationals. A comparison with \<^verbatim>\<open>NaN\<close> is false.
\<close>

definition nonBlackRatio :: "nat \<Rightarrow> nat \<Rightarrow> rat option" where
  "nonBlackRatio nonBlackPixels sampleSize =
     (if sampleSize = 0 then None else Some (of_nat nonBlackPixels / (of_nat sampleSize / 4)))"

definition below_5_percent :: "rat option \<Rightarrow> bool" where
  "below_5_percent ratio = (case ratio of None \<Rightarrow> False | Some q \<Rightarrow> q < 5 / 100)"

text \<open>
  The block of the final validation that draws the frame and looks at it: \<open>Some\<close> is
  the error it sets before it stops the attempt, \<open>None\<close> lets the attempt go on. The
  arguments are whether the canvas gave a drawing context, the dimensions of the video
  and the bytes of the drawn frame.
\<close>

definition contentCheck :: "bool \<Rightarrow> nat \<Rightarrow> nat \<Rightarrow> 8 word list \<Rightarrow> string option" where
  "contentCheck ctx videoWidth videoHeight data =
     (if ctx \<and> 0 < videoWidth \<and> 0 < videoHeight
      then
        let sampleSize = min (length data) 10000;
            nonBlackPixels = countNonBlack data sampleSize 0 0
        in if below_5_percent (nonBlackRatio nonBlackPixels sampleSize)
           then Some ''Camera appears to be covered or not capturing properly. Please ensure camera is uncovered and your face is visible, then try again.''
           else None
      else None)"




definition covered :: "bool \<Rightarrow> nat \<Rightarrow> nat \<Rightarrow> 8 word list \<Rightarrow> bool" where
  "covered ctx videoWidth videoHeight data = (contentCheck ctx videoWidth videoHeight data \<noteq> None)"

section \<open>Example data\<close>

text \<open>
  A concrete environment and a few accounts, for evaluating the definitions. The
  environment lower-cases the letters \<open>A\<close> to \<open>Z\<close> and has a transparent stand-in for the
  password hash.
\<close>

definition lower_char :: "char \<Rightarrow> char" where
  "lower_char c =
     (case map_of (zip ''ABCDEFGHIJKLMNOPQRSTUVWXYZ'' ''abcdefghijklmnopqrstuvwxyz'') c of
        None \<Rightarrow> c | Some d \<Rightarrow> d)"

definition demo_env :: env where
  "demo_env =
     \<lparr>toLowerCase = map lower_char,
      bcrypt_hash = (\<lambda>password rounds. ''$2a$'' @ password),
      bcrypt_compare = (\<lambda>password hash. hash = ''$2a$'' @ password),
      jwt_sign = (\<lambda>userId mail. userId @ ''.'' @ mail),
      gen_random_uuid = ''8'',
      CURRENT_TIMESTAMP = 5\<rparr>"

definition alice_row :: users_row where
  "alice_row =
     \<lparr>row_id = ''7'', row_email = to_text ''a@b.c'', password_hash = to_text ''$2a$pw'',
      row_enrolled = False, created_at = 1, updated_at = 1\<rparr>"

definition alice :: User where
  "alice =
     \<lparr>uid = ''7'', email = ''a@b.c'', passwordHash = ''$2a$pw'', enrolled = True, createdAt = 1\<rparr>"

definition bob :: User where
  "bob =
     \<lparr>uid = ''9'', email = ''b@b.c'', passwordHash = ''$2a$pw'', enrolled = False, createdAt = 2\<rparr>"

text \<open>An email with the character of code 0 in it.\<close>

definition nul_email :: string where
  "nul_email = ''x'' @ [CHR 0x00] @ ''@b.c''"





text \<open>
  Pages of a tick: a camera that plays with a live track of 640 by 480, the same with
  the track muted, the same with the track disabled, a page whose container has no
  video element, and a state in the middle of a streak.
\<close>

definition camera_track :: MediaStreamTrack where
  "camera_track =
     \<lparr>track_readyState = Live, muted = False, enabled = True,
      settings_width = Some 640, settings_height = Some 480, has_getCapabilities = True\<rparr>"

definition page_with :: "MediaStreamTrack \<Rightarrow> page" where
  "page_with track =
     \<lparr>container = True,
      video = Some \<lparr>paused = False, ended = False, readyState = 4,
                     srcObject = Some \<lparr>active = True, getVideoTracks = [track]\<rparr>,
                     element_videoWidth = 640, element_videoHeight = 480\<rparr>\<rparr>"

definition live_page :: page where
  "live_page = page_with camera_track"

definition muted_page :: page where
  "muted_page = page_with (camera_track\<lparr>muted := True\<rparr>)"

definition disabled_page :: page where
  "disabled_page = page_with (camera_track\<lparr>enabled := False\<rparr>)"

definition empty_page :: page where
  "empty_page = \<lparr>container = True, video = None\<rparr>"

definition seven_counted :: capture_state where
  "seven_counted = \<lparr>captureAttempts = 9, validCaptureCount = 7\<rparr>"

section \<open>Properties of the verification handler\<close>

text \<open>
  The matcher accepts exactly the strings of the shape 8-4-4-4-12: five runs of
  hexadecimal digits of these lengths, with a hyphen between two runs.
\<close>

lemma hexRun_Some:
  "(hexRun n s = Some r) = (\<exists>a. s = a @ r \<and> length a = n \<and> list_all hexDigit a)"
proof (induction n s rule: hexRun.induct)
  case (1 s)
  show ?case by auto
next
  case (2 n)
  show ?case by auto
next
  case (3 n c s)
  show ?case
  proof (cases "hexDigit c")
    case False
    have "\<not> (\<exists>a. c # s = a @ r \<and> length a = Suc n \<and> list_all hexDigit a)"
    proof
      assume "\<exists>a. c # s = a @ r \<and> length a = Suc n \<and> list_all hexDigit a"
      then obtain a where a: "c # s = a @ r" "length a = Suc n" "list_all hexDigit a" by blast
      from a(2) obtain x xs where "a = x # xs" by (cases a) simp_all
      with a False show False by simp
    qed
    with False show ?thesis by simp
  next
    case True
    have "(\<exists>a. c # s = a @ r \<and> length a = Suc n \<and> list_all hexDigit a) =
        (\<exists>b. s = b @ r \<and> length b = n \<and> list_all hexDigit b)"
    proof
      assume "\<exists>a. c # s = a @ r \<and> length a = Suc n \<and> list_all hexDigit a"
      then obtain a where a: "c # s = a @ r" "length a = Suc n" "list_all hexDigit a" by blast
      from a(2) obtain x xs where "a = x # xs" by (cases a) simp_all
      with a have "s = xs @ r \<and> length xs = n \<and> list_all hexDigit xs" by simp
      then show "\<exists>b. s = b @ r \<and> length b = n \<and> list_all hexDigit b" by blast
    next
      assume "\<exists>b. s = b @ r \<and> length b = n \<and> list_all hexDigit b"
      then obtain b where "s = b @ r \<and> length b = n \<and> list_all hexDigit b" by blast
      with True have "c # s = (c # b) @ r \<and> length (c # b) = Suc n \<and> list_all hexDigit (c # b)"
        by simp
      then show "\<exists>a. c # s = a @ r \<and> length a = Suc n \<and> list_all hexDigit a" by blast
    qed
    with True "3.IH" show ?thesis by simp
  qed
qed

lemma dash_Some: "(dash s = Some r) = (s = CHR ''-'' # r)"
  by (cases s) auto

lemma uuidRegex_test_shape:
  "uuidRegex_test s =
     (\<exists>a b c d e. s = a @ ''-'' @ b @ ''-'' @ c @ ''-'' @ d @ ''-'' @ e \<and>
        length a = 8 \<and> length b = 4 \<and> length c = 4 \<and> length d = 4 \<and> length e = 12 \<and>
        list_all hexDigit (a @ b @ c @ d @ e))"
  unfolding uuidRegex_test_def bind_eq_Some_conv hexRun_Some dash_Some
  by (auto; blast)

lemma not_string_iff: "not_string c = session_missing c"
  by (simp add: not_string_def session_missing_def split: option.split)

lemma not_bool_iff: "not_bool v = (\<not> liveness_asserted v)"
  by (auto simp add: not_bool_def liveness_asserted_def split: option.split)

text \<open>
  C1. The handler answers every request with exactly the response of the ordered
  rule: a missing session identifier gives \<^verbatim>\<open>CSID is required\<close>; otherwise a liveness flag
  that is not true gives the video-stream reason; otherwise a session identifier that
  is not UUID-shaped gives \<^verbatim>\<open>Invalid CSID format\<close>; otherwise an account that is not
  enrolled gives the must-enroll reason; otherwise the request is accepted. In
  particular an enrolled account that sends \<^verbatim>\<open>videoValidated = false\<close> with a malformed
  session identifier is told the liveness reason, not the format one.
\<close>

theorem verifyBiometric_first_failing_wins:
  "verifyBiometric user req = [decision_response (verification_rule user req)] \<and>
   (enrolled user \<and> videoValidated req = Some False \<and> csid req = Some s \<and> s \<noteq> [] \<and>
    \<not> uuidRegex_test s \<longrightarrow>
      verifyBiometric user req =
        [\<lparr>status = 400, body = ErrorBody
           ''Video stream validation required. Camera must be active and capturing.''\<rparr>])"
  by (simp add: verifyBiometric_def verifyBiometric_body_def verification_rule_def
      not_string_iff not_bool_iff session_missing_def liveness_asserted_def)

theorem verifyBiometric_first_failing_wins_witness:
  "enrolled alice \<and> \<not> uuidRegex_test ''not-a-uuid'' \<and>
   verifyBiometric alice \<lparr>csid = Some ''not-a-uuid'', videoValidated = Some False\<rparr> =
     [\<lparr>status = 400, body = ErrorBody
       ''Video stream validation required. Camera must be active and capturing.''\<rparr>]"
proof -
  have a: "\<not> uuidRegex_test ''not-a-uuid''" by code_simp
  have b: "enrolled alice" by (simp add: alice_def)
  have c: "verifyBiometric alice \<lparr>csid = Some ''not-a-uuid'', videoValidated = Some False\<rparr> =
     [\<lparr>status = 400, body = ErrorBody
       ''Video stream validation required. Camera must be active and capturing.''\<rparr>]"
    by (rule verifyBiometric_first_failing_wins [THEN conjunct2, rule_format, of _ _ "''not-a-uuid''"])
      (simp add: a b)
  show ?thesis using a b c by simp
qed

text \<open>
  C9. A request that passes the four checks is answered with \<^verbatim>\<open>verified: true\<close>. The
  response with status 403 is the last statement of the body, behind the unconditional
  \<^verbatim>\<open>return\<close>, and no response the handler sends has status 403.
\<close>

theorem verifyBiometric_never_403:
  "(\<not> session_missing (csid req) \<and> liveness_asserted (videoValidated req) \<and>
    test_csid (csid req) \<and> enrolled user \<longrightarrow>
      verifyBiometric user req =
        [\<lparr>status = 200, body = BiometricVerifyBody True ''Biometric verification successful''\<rparr>]) \<and>
   last (verifyBiometric_body user req) =
     Respond \<lparr>status = 403, body = BiometricFailedBody False ''Biometric verification failed''
       ''Biometric data did not match enrolled profile''\<rparr> \<and>
   (\<forall>res \<in> set (verifyBiometric user req). status res \<noteq> 403)"
  by (simp add: verifyBiometric_def verifyBiometric_body_def 
      not_string_iff not_bool_iff)

theorem verifyBiometric_never_403_witness:
  "\<not> session_missing (Some ''123e4567-e89b-12d3-a456-426614174000'') \<and>
   liveness_asserted (Some True) \<and>
   test_csid (Some ''123e4567-e89b-12d3-a456-426614174000'') \<and> enrolled alice \<and>
   verifyBiometric alice
     \<lparr>csid = Some ''123e4567-e89b-12d3-a456-426614174000'', videoValidated = Some True\<rparr> =
     [\<lparr>status = 200, body = BiometricVerifyBody True ''Biometric verification successful''\<rparr>] \<and>
   status (hd (verifyBiometric alice
     \<lparr>csid = Some ''123e4567-e89b-12d3-a456-426614174000'', videoValidated = Some True\<rparr>)) \<noteq> 403"
proof -
  let ?req = "\<lparr>csid = Some ''123e4567-e89b-12d3-a456-426614174000'', videoValidated = Some True\<rparr>"
  have a: "\<not> session_missing (Some ''123e4567-e89b-12d3-a456-426614174000'')"
    by (simp add: session_missing_def)
  have b: "liveness_asserted (Some True)"
    by (simp add: liveness_asserted_def)
  have c: "test_csid (Some ''123e4567-e89b-12d3-a456-426614174000'')"
    by code_simp
  have d: "enrolled alice"
    by (simp add: alice_def)
  have r: "verifyBiometric alice ?req =
     [\<lparr>status = 200, body = BiometricVerifyBody True ''Biometric verification successful''\<rparr>]"
    by (rule verifyBiometric_never_403 [THEN conjunct1, rule_format]) (simp add: a b c d)
  have "hd (verifyBiometric alice ?req) \<in> set (verifyBiometric alice ?req)"
    by (simp add: r)
  then have s: "status (hd (verifyBiometric alice ?req)) \<noteq> 403"
    by (rule verifyBiometric_never_403 [THEN conjunct2, THEN conjunct2, rule_format])
  show ?thesis using a b c d r s by simp
qed

section \<open>Properties of enrollment completion\<close>

lemma snd_markEnrolled:
  "snd (markEnrolled e i db) =
     map (\<lambda>row. if row_id row = i
                 then row\<lparr>row_enrolled := True, updated_at := CURRENT_TIMESTAMP e\<rparr> else row) db"
  by (simp add: markEnrolled_def Let_def)

lemma markEnrolled_enrolled:
  assumes "row \<in> set (snd (markEnrolled e i db))" and "row_id row = i"
  shows "row_enrolled row"
proof -
  from assms(1) obtain r where
    r: "row = (if row_id r = i
               then r\<lparr>row_enrolled := True, updated_at := CURRENT_TIMESTAMP e\<rparr> else r)"
    unfolding snd_markEnrolled set_map by (rule imageE)
  show ?thesis
  proof (cases "row_id r = i")
    case True
    with r show ?thesis by simp
  next
    case False
    with r assms(2) show ?thesis by simp
  qed
qed

lemma markEnrolled_others:
  "filter (\<lambda>row. row_id row \<noteq> i) (snd (markEnrolled e i db)) = filter (\<lambda>row. row_id row \<noteq> i) db"
  by (induction db) (simp_all add: snd_markEnrolled)

lemma findById_None: "(findById i db = None) = (i \<notin> set (map row_id db))"
  by (induction db) (auto simp add: findById_def first_row_def)

lemma findById_markEnrolled:
  "findById i db = Some u \<Longrightarrow> findById i (snd (markEnrolled e i db)) = Some (u\<lparr>enrolled := True\<rparr>)"
  by (induction db) (auto simp add: findById_def first_row_def from_row_def snd_markEnrolled split: if_splits)

lemma markEnrolled_absent:
  "findById i db = None \<Longrightarrow> markEnrolled e i db = (None, db)"
proof -
  assume "findById i db = None"
  then have a: "\<forall>row \<in> set db. row_id row \<noteq> i"
    by (auto simp add: findById_None)
  then have "map (\<lambda>row. if row_id row = i
                 then row\<lparr>row_enrolled := True, updated_at := CURRENT_TIMESTAMP e\<rparr> else row) db = db"
    by (simp add: map_idI)
  moreover from a have "filter (\<lambda>row. row_id row = i) db = []"
    by (simp add: filter_empty_conv)
  ultimately show ?thesis
    by (simp add: markEnrolled_def Let_def first_row_def)
qed

lemma map_from_row_markEnrolled_twice:
  "map from_row (snd (markEnrolled e2 i (snd (markEnrolled e1 i db)))) =
   map from_row (snd (markEnrolled e1 i db))"
  by (induction db) (simp_all add: snd_markEnrolled from_row_def)

lemma completeEnrollment_present:
  "\<not> session_missing (enroll_csid req) \<Longrightarrow>
     completeEnrollment e user req db =
       (\<lparr>status = 200,
         body = EnrollCompleteBody True ''Biometric enrollment completed successfully''\<rparr>,
        snd (markEnrolled e (uid user) db))"
  by (simp add: completeEnrollment_def not_string_iff)

lemma completeEnrollment_missing:
  "session_missing (enroll_csid req) \<Longrightarrow>
     completeEnrollment e user req db =
       (\<lparr>status = 400, body = ErrorBody ''CSID is required''\<rparr>, db)"
  by (simp add: completeEnrollment_def not_string_iff)

text \<open>
  C4. With a session identifier that is present, whatever its form, the handler
  answers \<^verbatim>\<open>enrolled: true\<close> with status 200 and sets the flag of the account: every row
  with the account's identifier is enrolled afterwards, the account read back from the
  store is the one before with the flag set, and the other rows are as they were. With
  a missing or empty session identifier it answers 400 \<^verbatim>\<open>CSID is required\<close> and leaves
  the store as it was.
\<close>

theorem completeEnrollment_marks_enrolled:
  "(\<not> session_missing (enroll_csid req) \<longrightarrow>
      fst (completeEnrollment e user req db) =
        \<lparr>status = 200,
          body = EnrollCompleteBody True ''Biometric enrollment completed successfully''\<rparr> \<and>
      (\<forall>row \<in> set (snd (completeEnrollment e user req db)).
         row_id row = uid user \<longrightarrow> row_enrolled row) \<and>
      (\<forall>u. findById (uid user) db = Some u \<longrightarrow>
         findById (uid user) (snd (completeEnrollment e user req db)) =
           Some (u\<lparr>enrolled := True\<rparr>)) \<and>
      filter (\<lambda>row. row_id row \<noteq> uid user) (snd (completeEnrollment e user req db)) =
        filter (\<lambda>row. row_id row \<noteq> uid user) db) \<and>
   (session_missing (enroll_csid req) \<longrightarrow>
      completeEnrollment e user req db =
        (\<lparr>status = 400, body = ErrorBody ''CSID is required''\<rparr>, db))"
proof (intro conjI impI ballI allI)
  assume p: "\<not> session_missing (enroll_csid req)"
  show "fst (completeEnrollment e user req db) =
        \<lparr>status = 200,
          body = EnrollCompleteBody True ''Biometric enrollment completed successfully''\<rparr>"
    by (simp only: completeEnrollment_present [OF p] fst_conv)
  show "filter (\<lambda>row. row_id row \<noteq> uid user) (snd (completeEnrollment e user req db)) =
        filter (\<lambda>row. row_id row \<noteq> uid user) db"
    by (simp only: completeEnrollment_present [OF p] snd_conv markEnrolled_others)
  fix row
  assume "row \<in> set (snd (completeEnrollment e user req db))" and i: "row_id row = uid user"
  then have "row \<in> set (snd (markEnrolled e (uid user) db))"
    by (simp only: completeEnrollment_present [OF p] snd_conv)
  then show "row_enrolled row"
    using i by (rule markEnrolled_enrolled)
next
  fix u
  assume p: "\<not> session_missing (enroll_csid req)" and u: "findById (uid user) db = Some u"
  show "findById (uid user) (snd (completeEnrollment e user req db)) = Some (u\<lparr>enrolled := True\<rparr>)"
    by (simp only: completeEnrollment_present [OF p] snd_conv findById_markEnrolled [OF u])
next
  assume "session_missing (enroll_csid req)"
  then show "completeEnrollment e user req db =
        (\<lparr>status = 400, body = ErrorBody ''CSID is required''\<rparr>, db)"
    by (rule completeEnrollment_missing)
qed

theorem completeEnrollment_marks_enrolled_witness:
  "\<not> session_missing (Some ''not-a-uuid'') \<and>
   fst (completeEnrollment demo_env alice \<lparr>enroll_csid = Some ''not-a-uuid''\<rparr> [alice_row]) =
     \<lparr>status = 200,
       body = EnrollCompleteBody True ''Biometric enrollment completed successfully''\<rparr> \<and>
   alice_row\<lparr>row_enrolled := True, updated_at := 5\<rparr> \<in>
     set (snd (completeEnrollment demo_env alice \<lparr>enroll_csid = Some ''not-a-uuid''\<rparr> [alice_row])) \<and>
   row_id (alice_row\<lparr>row_enrolled := True, updated_at := 5\<rparr>) = uid alice \<and>
   row_enrolled (alice_row\<lparr>row_enrolled := True, updated_at := 5\<rparr>) \<and>
   findById (uid alice) [alice_row] = Some (from_row alice_row) \<and>
   findById (uid alice)
     (snd (completeEnrollment demo_env alice \<lparr>enroll_csid = Some ''not-a-uuid''\<rparr> [alice_row])) =
     Some ((from_row alice_row)\<lparr>enrolled := True\<rparr>) \<and>
   session_missing (Some []) \<and>
   completeEnrollment demo_env alice \<lparr>enroll_csid = Some []\<rparr> [alice_row] =
     (\<lparr>status = 400, body = ErrorBody ''CSID is required''\<rparr>, [alice_row])"
proof -
  let ?req = "\<lparr>enroll_csid = Some ''not-a-uuid''\<rparr>"
  let ?row = "alice_row\<lparr>row_enrolled := True, updated_at := 5\<rparr>"
  note t = completeEnrollment_marks_enrolled [of ?req demo_env alice "[alice_row]"]
  have a: "\<not> session_missing (enroll_csid ?req)"
    by (simp add: session_missing_def)
  have m: "?row \<in> set (snd (completeEnrollment demo_env alice ?req [alice_row]))"
    by (simp add: completeEnrollment_def not_string_def markEnrolled_def demo_env_def Let_def
        alice_def alice_row_def)
  have i: "row_id ?row = uid alice"
    by (simp add: alice_def alice_row_def)
  have f: "findById (uid alice) [alice_row] = Some (from_row alice_row)"
    by (simp add: findById_def first_row_def alice_def alice_row_def)
  from t a have r: "fst (completeEnrollment demo_env alice ?req [alice_row]) =
     \<lparr>status = 200,
       body = EnrollCompleteBody True ''Biometric enrollment completed successfully''\<rparr>"
    by blast
  from t a m i have en: "row_enrolled ?row"
    by blast
  from t a f have g: "findById (uid alice) (snd (completeEnrollment demo_env alice ?req [alice_row])) =
     Some ((from_row alice_row)\<lparr>enrolled := True\<rparr>)"
    by blast
  have b: "session_missing (enroll_csid \<lparr>enroll_csid = Some []\<rparr>)"
    by (simp add: session_missing_def)
  have z: "completeEnrollment demo_env alice \<lparr>enroll_csid = Some []\<rparr> [alice_row] =
     (\<lparr>status = 400, body = ErrorBody ''CSID is required''\<rparr>, [alice_row])"
    using completeEnrollment_marks_enrolled
      [of "\<lparr>enroll_csid = Some []\<rparr>" demo_env alice "[alice_row]"] b
    by blast
  show ?thesis using a r m i en f g b z by simp
qed

text \<open>
  C10. When no row has the identifier of the authenticated account, the update returns
  \<^verbatim>\<open>null\<close>, the store is not changed, and the handler still answers 200 with
  \<^verbatim>\<open>enrolled: true\<close>.
\<close>

theorem completeEnrollment_ignores_update_result:
  "\<not> session_missing (enroll_csid req) \<and> findById (uid user) db = None \<longrightarrow>
     fst (markEnrolled e (uid user) db) = None \<and>
     completeEnrollment e user req db =
       (\<lparr>status = 200,
         body = EnrollCompleteBody True ''Biometric enrollment completed successfully''\<rparr>, db)"
  by (simp add: completeEnrollment_present markEnrolled_absent)

theorem completeEnrollment_ignores_update_result_witness:
  "\<not> session_missing (Some ''c1'') \<and> findById (uid bob) [alice_row] = None \<and>
   fst (markEnrolled demo_env (uid bob) [alice_row]) = None \<and>
   completeEnrollment demo_env bob \<lparr>enroll_csid = Some ''c1''\<rparr> [alice_row] =
     (\<lparr>status = 200,
       body = EnrollCompleteBody True ''Biometric enrollment completed successfully''\<rparr>,
      [alice_row])"
proof -
  have a: "\<not> session_missing (enroll_csid \<lparr>enroll_csid = Some ''c1''\<rparr>)"
    by (simp add: session_missing_def)
  have f: "findById (uid bob) [alice_row] = None"
    by (simp add: findById_def first_row_def bob_def alice_row_def)
  show ?thesis
    using completeEnrollment_ignores_update_result
      [of "\<lparr>enroll_csid = Some ''c1''\<rparr>" bob "[alice_row]" demo_env] a f
    by simp
qed

text \<open>
  C8. Two enrollment completions for the same stored account, each with a session
  identifier that is present: both answer 200 with \<^verbatim>\<open>enrolled: true\<close>, the second answer
  is the first one, the account is enrolled after each, and the second call changes no
  field of any account.
\<close>

theorem completeEnrollment_idempotent:
  "\<not> session_missing (enroll_csid req1) \<and> \<not> session_missing (enroll_csid req2) \<and>
   uid user2 = uid user1 \<and> findById (uid user1) db = Some u \<longrightarrow>
     (let (res1, db1) = completeEnrollment e1 user1 req1 db;
          (res2, db2) = completeEnrollment e2 user2 req2 db1
      in res1 = \<lparr>status = 200,
                 body = EnrollCompleteBody True ''Biometric enrollment completed successfully''\<rparr> \<and>
         res2 = res1 \<and>
         findById (uid user1) db1 = Some (u\<lparr>enrolled := True\<rparr>) \<and>
         findById (uid user1) db2 = Some (u\<lparr>enrolled := True\<rparr>) \<and>
         map from_row db2 = map from_row db1)"
proof (intro impI, elim conjE)
  assume p1: "\<not> session_missing (enroll_csid req1)" and p2: "\<not> session_missing (enroll_csid req2)"
    and i: "uid user2 = uid user1" and u: "findById (uid user1) db = Some u"
  have f1: "findById (uid user1) (snd (markEnrolled e1 (uid user1) db)) = Some (u\<lparr>enrolled := True\<rparr>)"
    by (rule findById_markEnrolled [OF u])
  have f2: "findById (uid user1) (snd (markEnrolled e2 (uid user1) (snd (markEnrolled e1 (uid user1) db)))) =
      Some (u\<lparr>enrolled := True\<rparr>)"
    using findById_markEnrolled [OF f1, of e2] by simp
  show "(let (res1, db1) = completeEnrollment e1 user1 req1 db;
          (res2, db2) = completeEnrollment e2 user2 req2 db1
      in res1 = \<lparr>status = 200,
                 body = EnrollCompleteBody True ''Biometric enrollment completed successfully''\<rparr> \<and>
         res2 = res1 \<and>
         findById (uid user1) db1 = Some (u\<lparr>enrolled := True\<rparr>) \<and>
         findById (uid user1) db2 = Some (u\<lparr>enrolled := True\<rparr>) \<and>
         map from_row db2 = map from_row db1)"
    by (simp only: completeEnrollment_present [OF p1] completeEnrollment_present [OF p2] i
        Let_def prod.case f1 f2 map_from_row_markEnrolled_twice simp_thms)
qed

theorem completeEnrollment_idempotent_witness:
  "\<not> session_missing (Some ''c1'') \<and> \<not> session_missing (Some ''c2'') \<and>
   findById (uid alice) [alice_row] = Some (from_row alice_row) \<and>
   fst (completeEnrollment demo_env alice \<lparr>enroll_csid = Some ''c1''\<rparr> [alice_row]) =
     \<lparr>status = 200,
       body = EnrollCompleteBody True ''Biometric enrollment completed successfully''\<rparr> \<and>
   fst (completeEnrollment demo_env alice \<lparr>enroll_csid = Some ''c2''\<rparr>
     (snd (completeEnrollment demo_env alice \<lparr>enroll_csid = Some ''c1''\<rparr> [alice_row]))) =
     \<lparr>status = 200,
       body = EnrollCompleteBody True ''Biometric enrollment completed successfully''\<rparr> \<and>
   findById (uid alice) (snd (completeEnrollment demo_env alice \<lparr>enroll_csid = Some ''c2''\<rparr>
     (snd (completeEnrollment demo_env alice \<lparr>enroll_csid = Some ''c1''\<rparr> [alice_row])))) =
     Some ((from_row alice_row)\<lparr>enrolled := True\<rparr>)"
proof -
  have a: "\<not> session_missing (enroll_csid \<lparr>enroll_csid = Some ''c1''\<rparr>)"
    and b: "\<not> session_missing (enroll_csid \<lparr>enroll_csid = Some ''c2''\<rparr>)"
    by (simp_all add: session_missing_def)
  have f: "findById (uid alice) [alice_row] = Some (from_row alice_row)"
    by (simp add: findById_def first_row_def alice_def alice_row_def)
  show ?thesis
    using completeEnrollment_idempotent
      [of "\<lparr>enroll_csid = Some ''c1''\<rparr>" "\<lparr>enroll_csid = Some ''c2''\<rparr>" alice alice
        "[alice_row]" "from_row alice_row" demo_env demo_env] a b f
    by (simp add: Let_def split: prod.splits)
qed

section \<open>Properties of registration and login\<close>

text \<open>
  A text of the database is a string it accepts, and an accepted string is stored as
  it is.
\<close>

lemma text_of_accepted: "\<not> no_text (text_of t)"
  using text_of [of t] by (simp add: no_text_def)

lemma text_of_to_text: "\<not> no_text s \<Longrightarrow> text_of (to_text s) = s"
  by (simp add: no_text_def to_text_inverse)

lemma first_row_None: "(first_row rows = None) = (rows = [])"
  by (cases rows) (simp_all add: first_row_def)

lemma first_row_filter: "first_row (filter P db) = map_option from_row (List.find P db)"
  by (induction db) (simp_all add: first_row_def)

lemma findByEmail_accepted:
  "\<not> no_text (toLowerCase e em) \<Longrightarrow>
     findByEmail e em db = Inr (map_option from_row (stored_account e em db))"
  by (simp add: findByEmail_def Let_def first_row_filter stored_account_def)

lemma findByEmail_refused:
  "no_text (toLowerCase e em) \<Longrightarrow> findByEmail e em db = Inl character_not_in_repertoire"
  by (simp add: findByEmail_def Let_def)

lemma stored_account_present:
  assumes "emails_lowercased e db" and "email_present e em db"
  shows "\<not> no_text (toLowerCase e em) \<and> stored_account e em db \<noteq> None"
proof -
  from assms(2) obtain row where r: "row \<in> set db"
    and eq: "toLowerCase e (text_of (row_email row)) = toLowerCase e em"
    unfolding email_present_def list_ex_iff by blast
  from assms(1) r have "toLowerCase e (text_of (row_email row)) = text_of (row_email row)"
    unfolding emails_lowercased_def list_all_iff by blast
  with eq have m: "text_of (row_email row) = toLowerCase e em" by simp
  then have "\<not> no_text (toLowerCase e em)"
    using text_of_accepted [of "row_email row"] by simp
  moreover from r m have "stored_account e em db \<noteq> None"
    unfolding stored_account_def find_None_iff by blast
  ultimately show ?thesis by blast
qed

lemma register_missing:
  "not_string (reg_email req) \<or> not_string (reg_password req) \<Longrightarrow>
     register e req db =
       (\<lparr>status = 400, body = ErrorBody ''Email and password are required''\<rparr>, db)"
  by (simp add: register_def)

lemma register_existing:
  "\<not> not_string (reg_email req) \<Longrightarrow> \<not> not_string (reg_password req) \<Longrightarrow>
   \<not> no_text (toLowerCase e (the (reg_email req))) \<Longrightarrow>
   stored_account e (the (reg_email req)) db \<noteq> None \<Longrightarrow>
     register e req db = (\<lparr>status = 400, body = ErrorBody ''User already exists''\<rparr>, db)"
  by (auto simp add: register_def findByEmail_accepted)

text \<open>
  The store keeps its emails in lower case: every request preserves this when
  lower-casing twice is lower-casing once, so it holds of every store that a run of
  the server builds from the empty one.
\<close>

lemma create_email:
  "create e em h db = Inr (u, db1) \<Longrightarrow>
     \<exists>row. db1 = db @ [row] \<and> text_of (row_email row) = toLowerCase e em"
  by (auto simp add: create_def Let_def text_of_to_text split: if_splits)

lemma register_emails:
  "snd (register e req db) = db \<or>
   (\<exists>row em. snd (register e req db) = db @ [row] \<and> text_of (row_email row) = toLowerCase e em)"
proof (cases "not_string (reg_email req) \<or> not_string (reg_password req)")
  case True
  then show ?thesis by (simp add: register_def)
next
  case False
  show ?thesis
  proof (cases "findByEmail e (the (reg_email req)) db")
    case (Inl err)
    with False show ?thesis by (simp add: register_def)
  next
    case (Inr found)
    show ?thesis
    proof (cases found)
      case (Some existingUser)
      with Inr False show ?thesis by (simp add: register_def)
    next
      case None
      show ?thesis
      proof (cases "create e (the (reg_email req)) (bcrypt_hash e (the (reg_password req)) 10) db")
        case (Inl err)
        with None Inr False show ?thesis by (simp add: register_def)
      next
        case (Inr p)
        obtain u db1 where p: "p = (u, db1)" by (cases p)
        from create_email [of e _ _ db u db1] Inr p
        obtain row where "db1 = db @ [row]"
          "text_of (row_email row) = toLowerCase e (the (reg_email req))"
          by auto
        moreover from None \<open>findByEmail e (the (reg_email req)) db = Inr found\<close> False Inr p
        have "snd (register e req db) = db1"
          by (simp add: register_def)
        ultimately show ?thesis by blast
      qed
    qed
  qed
qed

lemma emails_lowercased_markEnrolled:
  "emails_lowercased e db \<Longrightarrow> emails_lowercased e (snd (markEnrolled e' i db))"
  by (induction db) (simp_all add: emails_lowercased_def snd_markEnrolled)

lemma emails_lowercased_handle:
  assumes idem: "\<And>x. toLowerCase e (toLowerCase e x) = toLowerCase e x"
    and same: "toLowerCase e' = toLowerCase e"
    and inv: "emails_lowercased e db"
  shows "emails_lowercased e (snd (handle e' rq db))"
proof (cases rq)
  case (PostRegister req)
  from register_emails [of e' req db] show ?thesis
  proof
    assume "snd (register e' req db) = db"
    with inv PostRegister show ?thesis by (simp add: split_def)
  next
    assume "\<exists>row em. snd (register e' req db) = db @ [row] \<and>
      text_of (row_email row) = toLowerCase e' em"
    then obtain row em where r: "snd (register e' req db) = db @ [row]"
      "text_of (row_email row) = toLowerCase e' em" by blast
    from r(2) same idem have "toLowerCase e (text_of (row_email row)) = text_of (row_email row)"
      by simp
    with inv r(1) PostRegister show ?thesis
      by (simp add: split_def emails_lowercased_def)
  qed
next
  case (PostEnrollComplete user req)
  with inv emails_lowercased_markEnrolled [OF inv, of e' "uid user"] show ?thesis
    by (simp add: split_def completeEnrollment_def)
qed (simp_all add: inv)

lemma emails_lowercased_serve:
  assumes idem: "\<And>x. toLowerCase e (toLowerCase e x) = toLowerCase e x"
  shows "list_all (\<lambda>p. toLowerCase (fst p) = toLowerCase e) rqs \<Longrightarrow>
     emails_lowercased e db \<Longrightarrow> emails_lowercased e (serve rqs db)"
proof (induction rqs arbitrary: db)
  case Nil
  then show ?case by simp
next
  case (Cons p rqs)
  obtain e' rq where p: "p = (e', rq)" by (cases p)
  with Cons.prems(1) have same: "toLowerCase e' = toLowerCase e"
    and rest: "list_all (\<lambda>p. toLowerCase (fst p) = toLowerCase e) rqs" by simp_all
  have "emails_lowercased e (snd (handle e' rq db))"
    by (rule emails_lowercased_handle [OF idem same Cons.prems(2)])
  from Cons.IH [OF rest this] p show ?case by simp
qed

text \<open>
  The example environment and store, evaluated.
\<close>

lemma lower_demo:
  "toLowerCase demo_env ''a@b.c'' = ''a@b.c''"
  "toLowerCase demo_env ''A@b.C'' = ''a@b.c''"
  "toLowerCase demo_env ''New@B.c'' = ''new@b.c''"
  "toLowerCase demo_env nul_email = nul_email"
  "no_text nul_email"
  "nul_email \<noteq> []"
  "''a@b.c'' \<noteq> nul_email"
  by code_simp+

lemma alice_row_texts:
  "text_of (row_email alice_row) = ''a@b.c''"
  "text_of (password_hash alice_row) = ''$2a$pw''"
  by (simp_all add: alice_row_def text_of_to_text no_text_def)

lemma demo_store:
  "emails_lowercased demo_env [alice_row]"
  "email_present demo_env ''a@b.c'' [alice_row]"
  "email_present demo_env ''A@b.C'' [alice_row]"
  "stored_account demo_env ''a@b.c'' [alice_row] = Some alice_row"
  "stored_account demo_env ''a@b.c'' [] = None"
  "emails_unique [alice_row]"
  by (simp_all add: emails_lowercased_def email_present_def stored_account_def emails_unique_def
      alice_row_texts lower_demo)

text \<open>
  C6, as the code has it. A registration that names a stored email with an empty
  password is not answered with \<^verbatim>\<open>User already exists\<close>: the handler checks that both
  fields are present before it looks the email up, and answers
  \<^verbatim>\<open>Email and password are required\<close>.
\<close>

theorem register_duplicate_counterexample:
  "emails_lowercased demo_env [alice_row] \<and> email_present demo_env ''a@b.c'' [alice_row] \<and>
   register demo_env \<lparr>reg_email = Some ''a@b.c'', reg_password = Some []\<rparr> [alice_row] =
     (\<lparr>status = 400, body = ErrorBody ''Email and password are required''\<rparr>, [alice_row]) \<and>
   fst (register demo_env \<lparr>reg_email = Some ''a@b.c'', reg_password = Some []\<rparr> [alice_row]) \<noteq>
     \<lparr>status = 400, body = ErrorBody ''User already exists''\<rparr>"
  by (simp add: demo_store register_def not_string_def)

text \<open>
  C6, amended. In a store whose emails are in lower case, a registration whose email
  is already present when compared case-insensitively is answered with status 400 and
  creates no row, the store being as it was. The message is \<^verbatim>\<open>User already exists\<close> when
  the email and the password are both non-empty, and \<^verbatim>\<open>Email and password are required\<close>
  when one of them is missing or empty.
\<close>

theorem register_duplicate_rejected:
  "emails_lowercased e db \<and> email_present e em db \<longrightarrow>
     snd (register e \<lparr>reg_email = Some em, reg_password = pw\<rparr> db) = db \<and>
     status (fst (register e \<lparr>reg_email = Some em, reg_password = pw\<rparr> db)) = 400 \<and>
     (em \<noteq> [] \<and> \<not> not_string pw \<longrightarrow>
        fst (register e \<lparr>reg_email = Some em, reg_password = pw\<rparr> db) =
          \<lparr>status = 400, body = ErrorBody ''User already exists''\<rparr>) \<and>
     (em = [] \<or> not_string pw \<longrightarrow>
        fst (register e \<lparr>reg_email = Some em, reg_password = pw\<rparr> db) =
          \<lparr>status = 400, body = ErrorBody ''Email and password are required''\<rparr>)"
proof (intro impI, elim conjE)
  let ?req = "\<lparr>reg_email = Some em, reg_password = pw\<rparr>"
  assume inv: "emails_lowercased e db" and pres: "email_present e em db"
  have found: "\<not> no_text (toLowerCase e (the (reg_email ?req))) \<and>
      stored_account e (the (reg_email ?req)) db \<noteq> None"
    using stored_account_present [OF inv pres] by simp
  show "snd (register e ?req db) = db \<and>
     status (fst (register e ?req db)) = 400 \<and>
     (em \<noteq> [] \<and> \<not> not_string pw \<longrightarrow>
        fst (register e ?req db) = \<lparr>status = 400, body = ErrorBody ''User already exists''\<rparr>) \<and>
     (em = [] \<or> not_string pw \<longrightarrow>
        fst (register e ?req db) =
          \<lparr>status = 400, body = ErrorBody ''Email and password are required''\<rparr>)"
  proof (cases "em = [] \<or> not_string pw")
    case True
    then have "not_string (reg_email ?req) \<or> not_string (reg_password ?req)"
      by (simp add: not_string_def)
    from register_missing [OF this, of e db] True show ?thesis
      by simp
  next
    case False
    then have a: "\<not> not_string (reg_email ?req)" and b: "\<not> not_string (reg_password ?req)"
      by (simp_all add: not_string_def)
    from register_existing [OF a b conjunct1 [OF found] conjunct2 [OF found]] False show ?thesis
      by simp
  qed
qed

theorem register_duplicate_rejected_witness:
  "emails_lowercased demo_env [alice_row] \<and> email_present demo_env ''A@b.C'' [alice_row] \<and>
   ''A@b.C'' \<noteq> [] \<and> \<not> not_string (Some ''pw2'') \<and>
   register demo_env \<lparr>reg_email = Some ''A@b.C'', reg_password = Some ''pw2''\<rparr> [alice_row] =
     (\<lparr>status = 400, body = ErrorBody ''User already exists''\<rparr>, [alice_row]) \<and>
   not_string None \<and>
   register demo_env \<lparr>reg_email = Some ''A@b.C'', reg_password = None\<rparr> [alice_row] =
     (\<lparr>status = 400, body = ErrorBody ''Email and password are required''\<rparr>, [alice_row])"
proof -
  have inv: "emails_lowercased demo_env [alice_row]"
    by (rule demo_store)
  have pres: "email_present demo_env ''A@b.C'' [alice_row]"
    by (rule demo_store)
  have ne: "''A@b.C'' \<noteq> [] \<and> \<not> not_string (Some ''pw2'')"
    by (simp add: not_string_def)
  have nn: "not_string None"
    by (simp add: not_string_def)
  from register_duplicate_rejected [of demo_env "[alice_row]" "''A@b.C''" "Some ''pw2''"] inv pres ne
  have a: "register demo_env \<lparr>reg_email = Some ''A@b.C'', reg_password = Some ''pw2''\<rparr> [alice_row] =
     (\<lparr>status = 400, body = ErrorBody ''User already exists''\<rparr>, [alice_row])"
    by (simp add: prod_eq_iff)
  from register_duplicate_rejected [of demo_env "[alice_row]" "''A@b.C''" None] inv pres nn
  have b: "register demo_env \<lparr>reg_email = Some ''A@b.C'', reg_password = None\<rparr> [alice_row] =
     (\<lparr>status = 400, body = ErrorBody ''Email and password are required''\<rparr>, [alice_row])"
    by (simp add: prod_eq_iff)
  show ?thesis using inv pres ne nn a b by simp
qed

text \<open>
  The handler of a login by cases, the account read off the rows; and a match of the
  credentials is a row with the email and a matching hash, the only one where emails
  are unique.
\<close>

lemma login_cases:
  "login e req db =
     (if not_string (login_email req) \<or> not_string (login_password req)
      then \<lparr>status = 400, body = ErrorBody ''Email and password are required''\<rparr>
      else if no_text (toLowerCase e (the (login_email req)))
      then \<lparr>status = 500, body = ErrorBody ''Internal server error''\<rparr>
      else if credentials_match e (the (login_email req)) (the (login_password req)) db
      then \<lparr>status = 200,
             body = AuthBody ''Login successful''
               (view_of (from_row (the (stored_account e (the (login_email req)) db))))
               (jwt_sign e
                  (uid (from_row (the (stored_account e (the (login_email req)) db))))
                  (email (from_row (the (stored_account e (the (login_email req)) db)))))\<rparr>
      else \<lparr>status = 401, body = ErrorBody ''Invalid credentials''\<rparr>)"
proof (cases "not_string (login_email req) \<or> not_string (login_password req)")
  case True
  then show ?thesis by (simp add: login_def)
next
  case False
  note present = False
  show ?thesis
  proof (cases "no_text (toLowerCase e (the (login_email req)))")
    case True
    with present show ?thesis
      by (simp add: login_def findByEmail_refused internal_error_def)
  next
    case False
    note accepted = False
    show ?thesis
    proof (cases "stored_account e (the (login_email req)) db")
      case None
      with present accepted show ?thesis
        by (simp add: login_def findByEmail_accepted credentials_match_def)
    next
      case (Some row)
      with present accepted show ?thesis
        by (simp add: login_def findByEmail_accepted credentials_match_def from_row_def)
    qed
  qed
qed

lemma login_failure:
  "status (login e req db) \<noteq> 200 \<Longrightarrow>
     login e req db =
       (if not_string (login_email req) \<or> not_string (login_password req)
        then \<lparr>status = 400, body = ErrorBody ''Email and password are required''\<rparr>
        else if no_text (toLowerCase e (the (login_email req)))
        then \<lparr>status = 500, body = ErrorBody ''Internal server error''\<rparr>
        else \<lparr>status = 401, body = ErrorBody ''Invalid credentials''\<rparr>)"
  by (simp add: login_cases split: if_splits)

lemma credentials_match_row:
  "credentials_match e em pw db \<Longrightarrow> list_ex (row_matches e em pw) db"
proof -
  assume m: "credentials_match e em pw db"
  then obtain row where f: "stored_account e em db = Some row"
    and c: "bcrypt_compare e pw (text_of (password_hash row))"
    by (auto simp add: credentials_match_def split: option.splits)
  from f have "row \<in> set db \<and> text_of (row_email row) = toLowerCase e em"
    unfolding stored_account_def find_Some_iff by (auto simp add: in_set_conv_nth)
  with c show ?thesis
    unfolding list_ex_iff row_matches_def by blast
qed

lemma find_unique:
  "distinct (map f db) \<Longrightarrow> row \<in> set db \<Longrightarrow> List.find (\<lambda>r. f r = f row) db = Some row"
proof (induction db)
  case Nil
  then show ?case by simp
next
  case (Cons r db)
  show ?case
  proof (cases "r = row")
    case True
    then show ?thesis by simp
  next
    case False
    with Cons.prems have in_rest: "row \<in> set db" by simp
    with Cons.prems(1) have "f r \<noteq> f row" by auto
    with Cons.IH [OF _ in_rest] Cons.prems(1) show ?thesis by simp
  qed
qed

lemma row_credentials_match:
  assumes "emails_unique db" and "list_ex (row_matches e em pw) db"
  shows "credentials_match e em pw db"
proof -
  from assms(2) obtain row where r: "row \<in> set db"
    and m: "text_of (row_email row) = toLowerCase e em"
    and c: "bcrypt_compare e pw (text_of (password_hash row))"
    unfolding list_ex_iff row_matches_def by blast
  from find_unique [of "\<lambda>row. text_of (row_email row)" db row] assms(1) r
  have "List.find (\<lambda>r. text_of (row_email r) = text_of (row_email row)) db = Some row"
    by (simp add: emails_unique_def)
  with m have "stored_account e em db = Some row"
    by (simp add: stored_account_def)
  with c show ?thesis
    by (simp add: credentials_match_def)
qed

text \<open>
  C7, as the code has it. Two logins that do not match a stored account are not
  answered with 401 \<^verbatim>\<open>Invalid credentials\<close>: a stored email with an empty password, which
  does not match the stored hash, gets 400 \<^verbatim>\<open>Email and password are required\<close>; and an
  unknown email with the character of code 0 in it makes the query raise and gets 500
  \<^verbatim>\<open>Internal server error\<close>.
\<close>

theorem login_uniform_failure_counterexample:
  "stored_account demo_env ''a@b.c'' [alice_row] = Some alice_row \<and>
   \<not> bcrypt_compare demo_env [] (text_of (password_hash alice_row)) \<and>
   login demo_env \<lparr>login_email = Some ''a@b.c'', login_password = Some []\<rparr> [alice_row] =
     \<lparr>status = 400, body = ErrorBody ''Email and password are required''\<rparr> \<and>
   login demo_env \<lparr>login_email = Some ''a@b.c'', login_password = Some []\<rparr> [alice_row] \<noteq>
     \<lparr>status = 401, body = ErrorBody ''Invalid credentials''\<rparr> \<and>
   stored_account demo_env nul_email [alice_row] = None \<and>
   login demo_env \<lparr>login_email = Some nul_email, login_password = Some ''pw''\<rparr>
     [alice_row] = \<lparr>status = 500, body = ErrorBody ''Internal server error''\<rparr> \<and>
   login demo_env \<lparr>login_email = Some nul_email, login_password = Some ''pw''\<rparr>
     [alice_row] \<noteq> \<lparr>status = 401, body = ErrorBody ''Invalid credentials''\<rparr>"
proof -
  have a: "stored_account demo_env ''a@b.c'' [alice_row] = Some alice_row"
    by (rule demo_store)
  have b: "\<not> bcrypt_compare demo_env [] (text_of (password_hash alice_row))"
    by (simp add: alice_row_texts demo_env_def)
  have c: "login demo_env \<lparr>login_email = Some ''a@b.c'', login_password = Some []\<rparr> [alice_row] =
      \<lparr>status = 400, body = ErrorBody ''Email and password are required''\<rparr>"
    by (simp add: login_cases not_string_def)
  have d: "stored_account demo_env nul_email [alice_row] = None"
    by (simp add: stored_account_def alice_row_texts lower_demo)
  have f: "login demo_env
      \<lparr>login_email = Some nul_email, login_password = Some ''pw''\<rparr>
      [alice_row] = \<lparr>status = 500, body = ErrorBody ''Internal server error''\<rparr>"
    by (simp add: login_cases not_string_def lower_demo)
  show ?thesis
    by (simp only: a b c f d) simp
qed

text \<open>
  C7, amended. A login succeeds exactly when the email and the password are non-empty,
  the lower-cased email is a text the database accepts, and the credentials match: a
  stored row has that email and a hash that the password matches. With both fields
  non-empty and an accepted email, an unknown email and a wrong password get the same
  response, 401 \<^verbatim>\<open>Invalid credentials\<close>. An email that the database refuses gets 500
  \<^verbatim>\<open>Internal server error\<close>, and a missing or empty field gets 400
  \<^verbatim>\<open>Email and password are required\<close>, both whatever the store holds. So two failed
  logins with the same request get the same response in any two stores.
\<close>

theorem login_uniform_failure:
  "(status (login e req db) = 200) =
     (\<not> not_string (login_email req) \<and> \<not> not_string (login_password req) \<and>
      \<not> no_text (toLowerCase e (the (login_email req))) \<and>
      credentials_match e (the (login_email req)) (the (login_password req)) db) \<and>
   (credentials_match e em pw db \<longrightarrow> list_ex (row_matches e em pw) db) \<and>
   (emails_unique db \<longrightarrow> credentials_match e em pw db = list_ex (row_matches e em pw) db) \<and>
   (\<not> not_string (login_email req) \<and> \<not> not_string (login_password req) \<and>
    \<not> no_text (toLowerCase e (the (login_email req))) \<and>
    \<not> credentials_match e (the (login_email req)) (the (login_password req)) db \<longrightarrow>
      login e req db = \<lparr>status = 401, body = ErrorBody ''Invalid credentials''\<rparr>) \<and>
   (\<not> not_string (login_email req) \<and> \<not> not_string (login_password req) \<and>
    no_text (toLowerCase e (the (login_email req))) \<longrightarrow>
      login e req db = \<lparr>status = 500, body = ErrorBody ''Internal server error''\<rparr>) \<and>
   (not_string (login_email req) \<or> not_string (login_password req) \<longrightarrow>
      login e req db = \<lparr>status = 400, body = ErrorBody ''Email and password are required''\<rparr>) \<and>
   (toLowerCase e' = toLowerCase e \<and>
    status (login e req db) \<noteq> 200 \<and> status (login e' req db') \<noteq> 200 \<longrightarrow>
      login e req db = login e' req db')"
proof (intro conjI impI)
  show "(status (login e req db) = 200) =
     (\<not> not_string (login_email req) \<and> \<not> not_string (login_password req) \<and>
      \<not> no_text (toLowerCase e (the (login_email req))) \<and>
      credentials_match e (the (login_email req)) (the (login_password req)) db)"
    by (simp add: login_cases)
next
  assume "credentials_match e em pw db"
  then show "list_ex (row_matches e em pw) db"
    by (rule credentials_match_row)
next
  assume "emails_unique db"
  then show "credentials_match e em pw db = list_ex (row_matches e em pw) db"
    using credentials_match_row row_credentials_match by blast
next
  assume "\<not> not_string (login_email req) \<and> \<not> not_string (login_password req) \<and>
    \<not> no_text (toLowerCase e (the (login_email req))) \<and>
    \<not> credentials_match e (the (login_email req)) (the (login_password req)) db"
  then show "login e req db = \<lparr>status = 401, body = ErrorBody ''Invalid credentials''\<rparr>"
    by (simp add: login_cases)
next
  assume "\<not> not_string (login_email req) \<and> \<not> not_string (login_password req) \<and>
    no_text (toLowerCase e (the (login_email req)))"
  then show "login e req db = \<lparr>status = 500, body = ErrorBody ''Internal server error''\<rparr>"
    by (simp add: login_cases)
next
  assume "not_string (login_email req) \<or> not_string (login_password req)"
  then show "login e req db =
      \<lparr>status = 400, body = ErrorBody ''Email and password are required''\<rparr>"
    by (simp add: login_cases)
next
  assume "toLowerCase e' = toLowerCase e \<and>
    status (login e req db) \<noteq> 200 \<and> status (login e' req db') \<noteq> 200"
  then have same: "toLowerCase e' = toLowerCase e"
    and f: "status (login e req db) \<noteq> 200" and f': "status (login e' req db') \<noteq> 200"
    by blast+
  from login_failure [OF f] login_failure [OF f'] same
  show "login e req db = login e' req db'"
    by simp
qed

theorem login_uniform_failure_witness:
  "credentials_match demo_env ''a@b.c'' ''pw'' [alice_row] \<and>
   list_ex (row_matches demo_env ''a@b.c'' ''pw'') [alice_row] \<and>
   emails_unique [alice_row] \<and>
   \<not> credentials_match demo_env ''a@b.c'' ''bad'' [alice_row] \<and>
   \<not> list_ex (row_matches demo_env ''a@b.c'' ''bad'') [alice_row] \<and>
   \<not> credentials_match demo_env ''a@b.c'' ''bad'' [] \<and>
   login demo_env \<lparr>login_email = Some ''a@b.c'', login_password = Some ''bad''\<rparr> [alice_row] =
     \<lparr>status = 401, body = ErrorBody ''Invalid credentials''\<rparr> \<and>
   login demo_env \<lparr>login_email = Some ''a@b.c'', login_password = Some ''bad''\<rparr> [] =
     login demo_env \<lparr>login_email = Some ''a@b.c'', login_password = Some ''bad''\<rparr> [alice_row] \<and>
   no_text (toLowerCase demo_env nul_email) \<and>
   login demo_env \<lparr>login_email = Some nul_email, login_password = Some ''pw''\<rparr> [alice_row] =
     \<lparr>status = 500, body = ErrorBody ''Internal server error''\<rparr> \<and>
   not_string (Some []) \<and>
   login demo_env \<lparr>login_email = Some ''a@b.c'', login_password = Some []\<rparr> [alice_row] =
     \<lparr>status = 400, body = ErrorBody ''Email and password are required''\<rparr> \<and>
   status (login demo_env \<lparr>login_email = Some ''a@b.c'', login_password = Some ''pw''\<rparr> [alice_row]) =
     200"
proof -
  let ?bad = "\<lparr>login_email = Some ''a@b.c'', login_password = Some ''bad''\<rparr>"
  let ?none = "\<lparr>login_email = Some ''a@b.c'', login_password = Some []\<rparr>"
  let ?good = "\<lparr>login_email = Some ''a@b.c'', login_password = Some ''pw''\<rparr>"
  let ?nul = "\<lparr>login_email = Some nul_email, login_password = Some ''pw''\<rparr>"
  have g: "credentials_match demo_env ''a@b.c'' ''pw'' [alice_row]"
    by (simp add: credentials_match_def demo_store alice_row_texts) (simp add: demo_env_def)
  have w: "\<not> credentials_match demo_env ''a@b.c'' ''bad'' [alice_row]"
    by (simp add: credentials_match_def demo_store alice_row_texts) (simp add: demo_env_def)
  have u: "\<not> credentials_match demo_env ''a@b.c'' ''bad'' []"
    by (simp add: credentials_match_def demo_store)
  have q: "emails_unique [alice_row]"
    by (rule demo_store)
  have ok: "\<not> no_text (toLowerCase demo_env ''a@b.c'')"
    by (simp add: lower_demo no_text_def)
  have nt: "no_text (toLowerCase demo_env nul_email)"
    by (simp add: lower_demo)
  have ne: "nul_email \<noteq> []"
    by (rule lower_demo)
  from login_uniform_failure [of demo_env ?good "[alice_row]" "''a@b.c''" "''pw''"] g
  have r1: "list_ex (row_matches demo_env ''a@b.c'' ''pw'') [alice_row]"
    by blast
  from login_uniform_failure [of demo_env ?bad "[alice_row]" "''a@b.c''" "''bad''"] q w
  have r2: "\<not> list_ex (row_matches demo_env ''a@b.c'' ''bad'') [alice_row]"
    by blast
  from login_uniform_failure [of demo_env ?bad "[alice_row]"] ok w
  have a: "login demo_env ?bad [alice_row] =
      \<lparr>status = 401, body = ErrorBody ''Invalid credentials''\<rparr>"
    by (simp add: not_string_def)
  from login_uniform_failure [of demo_env ?bad "[]"] ok u
  have b: "login demo_env ?bad [] = \<lparr>status = 401, body = ErrorBody ''Invalid credentials''\<rparr>"
    by (simp add: not_string_def)
  from login_uniform_failure [of demo_env ?bad "[]" _ _ demo_env "[alice_row]"] a b
  have c: "login demo_env ?bad [] = login demo_env ?bad [alice_row]"
    by simp
  from login_uniform_failure [of demo_env ?nul "[alice_row]"] nt ne
  have n: "login demo_env ?nul [alice_row] =
      \<lparr>status = 500, body = ErrorBody ''Internal server error''\<rparr>"
    by (simp add: not_string_def)
  have m: "not_string (Some [])"
    by (simp add: not_string_def)
  from login_uniform_failure [of demo_env ?none "[alice_row]"] m
  have d: "login demo_env ?none [alice_row] =
      \<lparr>status = 400, body = ErrorBody ''Email and password are required''\<rparr>"
    by simp
  from login_uniform_failure [of demo_env ?good "[alice_row]"] ok g
  have s: "status (login demo_env ?good [alice_row]) = 200"
    by (simp add: not_string_def)
  show ?thesis
    using g r1 q w r2 u a c nt n m d s by (intro conjI)
qed

section \<open>The enrolled flag over the life of the store\<close>

lemma enrolled_kept_nth:
  "enrolled_kept db db' =
     (length db \<le> length db' \<and>
      (\<forall>i < length db. row_id (db' ! i) = row_id (db ! i) \<and>
         (row_enrolled (db ! i) \<longrightarrow> row_enrolled (db' ! i))))"
  by (auto simp add: enrolled_kept_def list_all2_conv_all_nth)

lemma enrolled_kept_refl: "enrolled_kept db db"
  by (simp add: enrolled_kept_nth)

lemma enrolled_kept_trans:
  assumes "enrolled_kept a b" and "enrolled_kept b c"
  shows "enrolled_kept a c"
proof -
  from assms have len: "length a \<le> length b" "length b \<le> length c"
    by (simp_all add: enrolled_kept_nth)
  {
    fix i assume i: "i < length a"
    with len have ib: "i < length b" by simp
    from assms(1) i have 1: "row_id (b ! i) = row_id (a ! i)"
      and 2: "row_enrolled (a ! i) \<longrightarrow> row_enrolled (b ! i)"
      by (simp_all add: enrolled_kept_nth)
    from assms(2) ib have 3: "row_id (c ! i) = row_id (b ! i)"
      and 4: "row_enrolled (b ! i) \<longrightarrow> row_enrolled (c ! i)"
      by (simp_all add: enrolled_kept_nth)
    from 1 2 3 4 have "row_id (c ! i) = row_id (a ! i) \<and>
        (row_enrolled (a ! i) \<longrightarrow> row_enrolled (c ! i))"
      by simp
  }
  with len show ?thesis
    by (simp add: enrolled_kept_nth)
qed

lemma enrolled_kept_append: "enrolled_kept db (db @ rows)"
  by (simp add: enrolled_kept_nth nth_append)

lemma enrolled_kept_markEnrolled: "enrolled_kept db (snd (markEnrolled e i db))"
  by (simp add: enrolled_kept_nth snd_markEnrolled)

lemma create_appends:
  "create e em h db = Inr (u, db1) \<Longrightarrow>
     \<not> enrolled u \<and> db1 = db @ [last db1] \<and> \<not> row_enrolled (last db1)"
  by (auto simp add: create_def Let_def from_row_def split: if_splits)

lemma register_store:
  "snd (register e req db) = db \<or>
   (\<exists>row. snd (register e req db) = db @ [row] \<and> \<not> row_enrolled row)"
proof (cases "not_string (reg_email req) \<or> not_string (reg_password req)")
  case True
  then show ?thesis by (simp add: register_def)
next
  case False
  show ?thesis
  proof (cases "findByEmail e (the (reg_email req)) db")
    case (Inl err)
    with False show ?thesis by (simp add: register_def)
  next
    case (Inr found)
    note looked_up = Inr
    show ?thesis
    proof (cases found)
      case (Some existingUser)
      with looked_up False show ?thesis by (simp add: register_def)
    next
      case None
      show ?thesis
      proof (cases "create e (the (reg_email req)) (bcrypt_hash e (the (reg_password req)) 10) db")
        case (Inl err)
        with None looked_up False show ?thesis by (simp add: register_def)
      next
        case (Inr p)
        obtain u db1 where p: "p = (u, db1)" by (cases p)
        from create_appends [of e _ _ db u db1] Inr p
        have "db1 = db @ [last db1] \<and> \<not> row_enrolled (last db1)" by simp
        moreover from None looked_up False Inr p have "snd (register e req db) = db1"
          by (simp add: register_def)
        ultimately show ?thesis by metis
      qed
    qed
  qed
qed

lemma completeEnrollment_store:
  "snd (completeEnrollment e user req db) = db \<or>
   snd (completeEnrollment e user req db) = snd (markEnrolled e (uid user) db)"
  by (simp add: completeEnrollment_def)

lemma handle_store:
  "snd (handle e rq db) = db \<or>
   (\<exists>row. (\<exists>req. rq = PostRegister req) \<and> snd (handle e rq db) = db @ [row] \<and> \<not> row_enrolled row) \<or>
   (\<exists>user req. rq = PostEnrollComplete user req \<and>
      snd (handle e rq db) = snd (markEnrolled e (uid user) db))"
proof (cases rq)
  case (PostRegister req)
  with register_store [of e req db] show ?thesis
    by (auto simp add: split_def)
next
  case (PostEnrollComplete user req)
  with completeEnrollment_store [of e user req db] show ?thesis
    by (auto simp add: split_def)
qed simp_all

lemma enrolled_kept_handle: "enrolled_kept db (snd (handle e rq db))"
  using handle_store [of e rq db]
  by (elim disjE exE conjE) (simp_all only: enrolled_kept_refl enrolled_kept_append enrolled_kept_markEnrolled)

lemma enrolled_kept_serve: "enrolled_kept db (serve rqs db)"
proof (induction rqs arbitrary: db)
  case Nil
  show ?case by (simp add: enrolled_kept_refl)
next
  case (Cons p rqs)
  obtain e rq where p: "p = (e, rq)" by (cases p)
  have "enrolled_kept db (snd (handle e rq db))"
    by (rule enrolled_kept_handle)
  moreover have "enrolled_kept (snd (handle e rq db)) (serve rqs (snd (handle e rq db)))"
    by (rule Cons.IH)
  ultimately show ?case
    unfolding p serve.simps by (rule enrolled_kept_trans)
qed

lemma other_requests_keep_flags:
  assumes "\<not> is_enroll_complete rq"
  shows "map row_enrolled (take (length db) (snd (handle e rq db))) = map row_enrolled db \<and>
     list_all (\<lambda>row. \<not> row_enrolled row) (drop (length db) (snd (handle e rq db)))"
  using handle_store [of e rq db] assms
  by (elim disjE exE conjE) simp_all

lemma markEnrolled_rows:
  "row \<in> set (snd (markEnrolled e i db)) \<Longrightarrow> row \<in> set db \<or> row_enrolled row"
proof -
  assume "row \<in> set (snd (markEnrolled e i db))"
  then obtain r where r: "r \<in> set db" and
    eq: "row = (if row_id r = i
               then r\<lparr>row_enrolled := True, updated_at := CURRENT_TIMESTAMP e\<rparr> else r)"
    unfolding snd_markEnrolled set_map by (rule imageE)
  show ?thesis
  proof (cases "row_id r = i")
    case True
    with eq show ?thesis by simp
  next
    case False
    with eq r show ?thesis by simp
  qed
qed

text \<open>
  C5. An account is created with the flag false. Whatever request is handled, and
  over any run of requests, every row keeps its place and identifier and a flag that
  was true stays true. A request other than enrollment completion leaves the flag of
  every existing row as it was and adds only rows with the flag false. After an
  enrollment completion every row is as it was or has the flag true.
\<close>

theorem enrolled_flag_never_reversed:
  "(create e em h db = Inr (u, db1) \<longrightarrow>
      \<not> enrolled u \<and> db1 = db @ [last db1] \<and> \<not> row_enrolled (last db1)) \<and>
   enrolled_kept db (snd (handle e rq db)) \<and>
   enrolled_kept db (serve rqs db) \<and>
   (\<not> is_enroll_complete rq \<longrightarrow>
      map row_enrolled (take (length db) (snd (handle e rq db))) = map row_enrolled db \<and>
      list_all (\<lambda>row. \<not> row_enrolled row) (drop (length db) (snd (handle e rq db)))) \<and>
   (\<forall>row \<in> set (snd (handle e (PostEnrollComplete user req) db)).
      row \<in> set db \<or> row_enrolled row)"
proof (intro conjI impI ballI)
  assume "create e em h db = Inr (u, db1)"
  from create_appends [OF this]
  show "\<not> enrolled u" and "db1 = db @ [last db1]" and "\<not> row_enrolled (last db1)"
    by blast+
next
  show "enrolled_kept db (snd (handle e rq db))"
    by (rule enrolled_kept_handle)
  show "enrolled_kept db (serve rqs db)"
    by (rule enrolled_kept_serve)
next
  assume n: "\<not> is_enroll_complete rq"
  from other_requests_keep_flags [OF n, of db e]
  show "map row_enrolled (take (length db) (snd (handle e rq db))) = map row_enrolled db"
    and "list_all (\<lambda>row. \<not> row_enrolled row) (drop (length db) (snd (handle e rq db)))"
    by blast+
next
  fix row
  assume "row \<in> set (snd (handle e (PostEnrollComplete user req) db))"
  then have "row \<in> set db \<or> row \<in> set (snd (markEnrolled e (uid user) db))"
    using completeEnrollment_store [of e user req db] by (auto simp add: split_def)
  then show "row \<in> set db \<or> row_enrolled row"
    using markEnrolled_rows by blast
qed

theorem enrolled_flag_never_reversed_witness:
  "create demo_env ''New@B.c'' ''$2a$x'' [alice_row] =
     Inr (\<lparr>uid = ''8'', email = ''new@b.c'', passwordHash = ''$2a$x'', enrolled = False,
            createdAt = 5\<rparr>,
          [alice_row,
           \<lparr>row_id = ''8'', row_email = to_text ''new@b.c'', password_hash = to_text ''$2a$x'',
            row_enrolled = False, created_at = 5, updated_at = 5\<rparr>]) \<and>
   \<not> row_enrolled (last [alice_row,
           \<lparr>row_id = ''8'', row_email = to_text ''new@b.c'', password_hash = to_text ''$2a$x'',
            row_enrolled = False, created_at = 5, updated_at = 5\<rparr>]) \<and>
   \<not> is_enroll_complete (PostRegister \<lparr>reg_email = Some ''New@B.c'', reg_password = Some ''x''\<rparr>) \<and>
   map row_enrolled (take (length [alice_row])
     (snd (handle demo_env
        (PostRegister \<lparr>reg_email = Some ''New@B.c'', reg_password = Some ''x''\<rparr>) [alice_row]))) =
     map row_enrolled [alice_row] \<and>
   alice_row\<lparr>row_enrolled := True, updated_at := 5\<rparr> \<in>
     set (snd (handle demo_env (PostEnrollComplete alice \<lparr>enroll_csid = Some ''c1''\<rparr>) [alice_row])) \<and>
   row_enrolled (alice_row\<lparr>row_enrolled := True, updated_at := 5\<rparr>) \<and>
   enrolled_kept [alice_row]
     (serve [(demo_env, PostEnrollComplete alice \<lparr>enroll_csid = Some ''c1''\<rparr>),
             (demo_env, PostRegister \<lparr>reg_email = Some ''New@B.c'', reg_password = Some ''x''\<rparr>)]
        [alice_row])"
proof -
  let ?new = "\<lparr>row_id = ''8'', row_email = to_text ''new@b.c'', password_hash = to_text ''$2a$x'',
            row_enrolled = False, created_at = 5, updated_at = 5\<rparr>"
  let ?u = "\<lparr>uid = ''8'', email = ''new@b.c'', passwordHash = ''$2a$x'', enrolled = False,
            createdAt = 5\<rparr>"
  let ?reg = "PostRegister \<lparr>reg_email = Some ''New@B.c'', reg_password = Some ''x''\<rparr>"
  let ?enr = "PostEnrollComplete alice \<lparr>enroll_csid = Some ''c1''\<rparr>"
  let ?row = "alice_row\<lparr>row_enrolled := True, updated_at := 5\<rparr>"
  note t = enrolled_flag_never_reversed
    [of demo_env "''New@B.c''" "''$2a$x''" "[alice_row]" ?u "[alice_row, ?new]" ?reg
      "[(demo_env, ?enr), (demo_env, ?reg)]" alice "\<lparr>enroll_csid = Some ''c1''\<rparr>"]
  have c: "create demo_env ''New@B.c'' ''$2a$x'' [alice_row] = Inr (?u, [alice_row, ?new])"
    by (simp add: create_def Let_def lower_demo alice_row_texts no_text_def from_row_def
        text_of_to_text)
      (simp add: demo_env_def alice_row_def)
  have n: "\<not> is_enroll_complete ?reg"
    by simp
  have m: "?row \<in> set (snd (handle demo_env ?enr [alice_row]))"
    by (simp add: completeEnrollment_def not_string_def markEnrolled_def demo_env_def Let_def
        alice_def alice_row_def)
  have o: "?row \<notin> set [alice_row]"
    by (simp add: alice_row_def)
  from t c have 1: "\<not> row_enrolled (last [alice_row, ?new])"
    by blast
  from t n have 2: "map row_enrolled (take (length [alice_row]) (snd (handle demo_env ?reg [alice_row]))) =
      map row_enrolled [alice_row]"
    by blast
  from t m o have 3: "row_enrolled ?row"
    by blast
  from t have 4: "enrolled_kept [alice_row] (serve [(demo_env, ?enr), (demo_env, ?reg)] [alice_row])"
    by blast
  show ?thesis using c 1 n 2 m 3 4 by simp
qed
section \<open>Properties of the sampling loop\<close>

lemma checkCapture_cases:
  "checkCapture s st =
     (if \<not> container s then Failed ''Camera container lost. Please try again.''
      else if 30 \<le> captureAttempts st + 1 \<and>
              (if counted_tick s then validCaptureCount st + 1 else 0) < 20
      then Failed ''Camera is not capturing video properly. Please ensure camera is uncovered, has proper lighting, and your face is visible, then try again.''
      else if 20 \<le> (if counted_tick s then validCaptureCount st + 1 else 0)
      then Proceed \<lparr>captureAttempts = captureAttempts st + 1,
             validCaptureCount = (if counted_tick s then validCaptureCount st + 1 else 0)\<rparr>
      else Waiting \<lparr>captureAttempts = captureAttempts st + 1,
             validCaptureCount = (if counted_tick s then validCaptureCount st + 1 else 0)\<rparr>)"
  by (simp add: checkCapture_def Let_def maxAttempts_def requiredValidCaptures_def
      counted_tick_def)

lemma ex_first_or_later:
  "(\<exists>m. 0 < m \<and> P m) = (P (Suc 0) \<or> (\<exists>m. 0 < m \<and> P (Suc m)))"
proof
  assume "\<exists>m. 0 < m \<and> P m"
  then obtain m where m: "0 < m" "P m" by blast
  then obtain j where j: "m = Suc j" by (cases m) simp_all
  show "P (Suc 0) \<or> (\<exists>m. 0 < m \<and> P (Suc m))"
  proof (cases j)
    case 0
    with m j show ?thesis by simp
  next
    case (Suc i)
    with m j have "0 < j \<and> P (Suc j)" by simp
    then show ?thesis by blast
  qed
next
  assume "P (Suc 0) \<or> (\<exists>m. 0 < m \<and> P (Suc m))"
  then show "\<exists>m. 0 < m \<and> P m" by (metis zero_less_Suc)
qed

lemma reaches_one:
  "reaches k c (s # ss) (Suc 0) =
     (k + 1 \<le> 30 \<and> container s \<and> 20 \<le> (if counted_tick s then c + 1 else 0))"
  by (simp add: reaches_def)

lemma reaches_Suc:
  "0 < m \<Longrightarrow>
   reaches k c (s # ss) (Suc m) =
     (container s \<and> reaches (k + 1) (if counted_tick s then c + 1 else 0) ss m)"
  by (auto simp add: reaches_def)

lemma setInterval_passes_iff:
  "captureAttempts st < 30 \<Longrightarrow> validCaptureCount st < 20 \<Longrightarrow>
   passes_streak (setInterval ss st) =
     (\<exists>m. 0 < m \<and> reaches (captureAttempts st) (validCaptureCount st) ss m)"
proof (induction ss arbitrary: st)
  case Nil
  show ?case by (simp add: reaches_def)
next
  case (Cons s ss)
  let ?k = "captureAttempts st" and ?c = "validCaptureCount st"
  let ?c' = "if counted_tick s then ?c + 1 else 0"
  let ?st' = "\<lparr>captureAttempts = ?k + 1, validCaptureCount = ?c'\<rparr>"
  have later: "(\<exists>m. 0 < m \<and> reaches ?k ?c (s # ss) (Suc m)) =
      (container s \<and> (\<exists>m. 0 < m \<and> reaches (?k + 1) ?c' ss m))"
    using reaches_Suc [of _ ?k ?c s ss] by blast
  have rhs: "(\<exists>m. 0 < m \<and> reaches ?k ?c (s # ss) m) =
      (container s \<and> (20 \<le> ?c' \<or> (\<exists>m. 0 < m \<and> reaches (?k + 1) ?c' ss m)))"
    using Cons.prems(1)
    by (subst ex_first_or_later) (simp only: later reaches_one, auto)
  show ?case
  proof (cases "container s")
    case False
    then show ?thesis by (simp add: checkCapture_cases rhs)
  next
    case True
    note cont = True
    show ?thesis
    proof (cases "20 \<le> ?c'")
      case True
      with cont show ?thesis by (simp add: checkCapture_cases rhs)
    next
      case False
      note small = False
      show ?thesis
      proof (cases "30 \<le> ?k + 1")
        case True
        have "\<not> (\<exists>m. 0 < m \<and> reaches (?k + 1) ?c' ss m)"
          using True by (auto simp add: reaches_def)
        with True small cont show ?thesis
          by (simp add: checkCapture_cases rhs)
      next
        case False
        then have k': "captureAttempts ?st' < 30" by simp
        from small have c': "validCaptureCount ?st' < 20" by simp
        from Cons.IH [OF k' c'] False small cont show ?thesis
          by (simp add: checkCapture_cases rhs)
      qed
    qed
  qed
qed

lemma count_after_snoc:
  "count_after c (xs @ [s]) = (if counted_tick s then count_after c xs + 1 else 0)"
  by (induction xs arbitrary: c) simp_all

lemma count_after_takeWhile:
  "count_after 0 xs = length (takeWhile counted_tick (rev xs))"
  by (induction xs rule: rev_induct) (simp_all add: count_after_snoc)

lemma le_length_takeWhile:
  "(n \<le> length (takeWhile P ys)) = (n \<le> length ys \<and> list_all P (take n ys))"
proof (induction ys arbitrary: n)
  case Nil
  show ?case by simp
next
  case (Cons y ys)
  show ?case
  proof (cases n)
    case 0
    then show ?thesis by simp
  next
    case (Suc j)
    with Cons.IH [of j] show ?thesis by simp
  qed
qed

lemma count_after_streak:
  assumes "m \<le> length ss"
  shows "(20 \<le> count_after 0 (take m ss)) = streak_at ss m"
proof (cases "20 \<le> m")
  case False
  then have "\<not> 20 \<le> length (takeWhile counted_tick (rev (take m ss)))"
    using assms by (simp add: le_length_takeWhile)
  with False show ?thesis
    by (simp add: count_after_takeWhile streak_at_def requiredValidCaptures_def)
next
  case True
  have len: "length (take m ss) = m"
    using assms by simp
  have "take 20 (rev (take m ss)) = rev (drop (m - 20) (take m ss))"
    using len by (simp add: take_rev)
  also have "drop (m - 20) (take m ss) = take 20 (drop (m - 20) ss)"
    using True by (simp add: drop_take)
  finally have "list_all counted_tick (take 20 (rev (take m ss))) =
      list_all counted_tick (take 20 (drop (m - 20) ss))"
    by (simp add: list_all_iff)
  with True assms len show ?thesis
    by (simp add: count_after_takeWhile le_length_takeWhile streak_at_def
        requiredValidCaptures_def)
qed

lemma passes_iff_streak:
  "passes_streak (setInterval ss capture_start) =
     (\<exists>n. n \<le> maxAttempts \<and> streak_at ss n \<and> list_all container (take n ss))"
proof -
  have "passes_streak (setInterval ss capture_start) = (\<exists>m. 0 < m \<and> reaches 0 0 ss m)"
    using setInterval_passes_iff [of capture_start ss] by (simp add: capture_start_def)
  also have "\<dots> = (\<exists>n. n \<le> maxAttempts \<and> streak_at ss n \<and> list_all container (take n ss))"
  proof
    assume "\<exists>m. 0 < m \<and> reaches 0 0 ss m"
    then obtain m where m: "m \<le> length ss" "m \<le> 30" "list_all container (take m ss)"
      "20 \<le> count_after 0 (take m ss)"
      by (auto simp add: reaches_def)
    from m(1,4) have "streak_at ss m"
      by (simp add: count_after_streak)
    with m(2,3) show "\<exists>n. n \<le> maxAttempts \<and> streak_at ss n \<and> list_all container (take n ss)"
      by (auto simp add: maxAttempts_def)
  next
    assume "\<exists>n. n \<le> maxAttempts \<and> streak_at ss n \<and> list_all container (take n ss)"
    then obtain n where n: "n \<le> 30" "streak_at ss n" "list_all container (take n ss)"
      by (auto simp add: maxAttempts_def)
    from n(2) have b: "20 \<le> n" "n \<le> length ss"
      by (simp_all add: streak_at_def requiredValidCaptures_def)
    from b(2) n(2) have "20 \<le> count_after 0 (take n ss)"
      by (simp add: count_after_streak)
    with n b have "0 < n \<and> reaches 0 0 ss n"
      by (simp add: reaches_def)
    then show "\<exists>m. 0 < m \<and> reaches 0 0 ss m" by blast
  qed
  finally show ?thesis .
qed

lemma setInterval_decides:
  "captureAttempts st < 30 \<Longrightarrow> 30 - captureAttempts st \<le> length ss \<Longrightarrow>
   list_all container (take (30 - captureAttempts st) ss) \<Longrightarrow>
   passes_streak (setInterval ss st) \<or>
   setInterval ss st = Failed ''Camera is not capturing video properly. Please ensure camera is uncovered, has proper lighting, and your face is visible, then try again.''"
proof (induction ss arbitrary: st)
  case Nil
  then show ?case by simp
next
  case (Cons s ss)
  let ?k = "captureAttempts st" and ?c = "validCaptureCount st"
  let ?c' = "if counted_tick s then ?c + 1 else 0"
  let ?st' = "\<lparr>captureAttempts = ?k + 1, validCaptureCount = ?c'\<rparr>"
  from Cons.prems(1) obtain d where d: "30 - ?k = Suc d"
    by (cases "30 - ?k") simp_all
  with Cons.prems(3) have cont: "container s" and rest: "list_all container (take d ss)"
    by simp_all
  show ?case
  proof (cases "20 \<le> ?c'")
    case True
    with cont show ?thesis by (simp add: checkCapture_cases)
  next
    case False
    note small = False
    show ?thesis
    proof (cases "30 \<le> ?k + 1")
      case True
      with small cont show ?thesis by (simp add: checkCapture_cases)
    next
      case False
      then have k': "captureAttempts ?st' < 30" by simp
      from d have dd: "30 - captureAttempts ?st' = d" by simp
      from Cons.prems(2) d have len: "30 - captureAttempts ?st' \<le> length ss" by simp
      from rest dd have r: "list_all container (take (30 - captureAttempts ?st') ss)" by simp
      from Cons.IH [OF k' len r] False small cont show ?thesis
        by (simp add: checkCapture_cases)
    qed
  qed
qed

lemma invalid_sample_resets:
  "\<not> counted_tick s \<Longrightarrow>
     \<not> passes_streak (checkCapture s st) \<and>
     (\<forall>st'. checkCapture s st = Waiting st' \<longrightarrow> validCaptureCount st' = 0)"
  by (auto simp add: checkCapture_cases)

lemma streak_after_prefix:
  assumes "length run = requiredValidCaptures" and "list_all counted_tick run"
  shows "streak_at (pre @ run @ rest) (length pre + requiredValidCaptures)"
  using assms by (simp add: streak_at_def)

text \<open>
  The loop on the ticks that the callback counts: a tick that is not counted never
  passes and leaves the counter at zero; a run passes exactly when, at some tick within
  the budget of 30, the last 20 ticks are all counted and the container was there at
  every tick so far; and with 30 ticks and no such streak the attempt fails with the
  message of the exhausted budget.
\<close>

lemma streak_check_of_counted_ticks:
  "(\<not> counted_tick s \<longrightarrow>
      \<not> passes_streak (checkCapture s st) \<and>
      (\<forall>st'. checkCapture s st = Waiting st' \<longrightarrow> validCaptureCount st' = 0)) \<and>
   passes_streak (setInterval ss capture_start) =
     (\<exists>n. n \<le> maxAttempts \<and> streak_at ss n \<and> list_all container (take n ss)) \<and>
   (list_all container pre \<and> length pre + requiredValidCaptures \<le> maxAttempts \<and>
    length run = requiredValidCaptures \<and> list_all container run \<and> list_all counted_tick run \<longrightarrow>
      passes_streak (setInterval (pre @ run @ rest) capture_start)) \<and>
   (maxAttempts \<le> length ss \<and> list_all container (take maxAttempts ss) \<and>
    \<not> (\<exists>n. n \<le> maxAttempts \<and> streak_at ss n) \<longrightarrow>
      setInterval ss capture_start =
        Failed ''Camera is not capturing video properly. Please ensure camera is uncovered, has proper lighting, and your face is visible, then try again.'')"
proof (intro conjI impI)
  assume "\<not> counted_tick s"
  from invalid_sample_resets [OF this, of st]
  show "\<not> passes_streak (checkCapture s st)"
    and "\<forall>st'. checkCapture s st = Waiting st' \<longrightarrow> validCaptureCount st' = 0"
    by blast+
next
  show "passes_streak (setInterval ss capture_start) =
     (\<exists>n. n \<le> maxAttempts \<and> streak_at ss n \<and> list_all container (take n ss))"
    by (rule passes_iff_streak)
next
  assume a: "list_all container pre \<and> length pre + requiredValidCaptures \<le> maxAttempts \<and>
    length run = requiredValidCaptures \<and> list_all container run \<and> list_all counted_tick run"
  let ?n = "length pre + requiredValidCaptures"
  from a have "streak_at (pre @ run @ rest) ?n"
    by (simp add: streak_after_prefix)
  moreover from a have "list_all container (take ?n (pre @ run @ rest))"
    by simp
  moreover from a have "?n \<le> maxAttempts"
    by simp
  ultimately show "passes_streak (setInterval (pre @ run @ rest) capture_start)"
    unfolding passes_iff_streak by blast
next
  assume a: "maxAttempts \<le> length ss \<and> list_all container (take maxAttempts ss) \<and>
    \<not> (\<exists>n. n \<le> maxAttempts \<and> streak_at ss n)"
  then have "\<not> passes_streak (setInterval ss capture_start)"
    unfolding passes_iff_streak by blast
  moreover from a have "passes_streak (setInterval ss capture_start) \<or>
      setInterval ss capture_start =
        Failed ''Camera is not capturing video properly. Please ensure camera is uncovered, has proper lighting, and your face is visible, then try again.''"
    using setInterval_decides [of capture_start ss]
    by (simp add: capture_start_def maxAttempts_def)
  ultimately show "setInterval ss capture_start =
        Failed ''Camera is not capturing video properly. Please ensure camera is uncovered, has proper lighting, and your face is visible, then try again.''"
    by blast
qed


text \<open>
  Where both settings of the first live track are there and not zero, the test of the
  settings takes the place of the test of \<^verbatim>\<open>muted\<close> and \<^verbatim>\<open>enabled\<close>: the signal holds whatever
  these two are.
\<close>

lemma trackSignal_settings:
  "truthy (settings_width track) \<Longrightarrow> truthy (settings_height track) \<Longrightarrow>
     trackSignal videoElement track"
  by (auto simp add: trackSignal_def Let_def truthy_def above_zero_def split: option.splits)

text \<open>
  C2, as the code has it. A tick whose only live track is muted, or disabled, is not a
  valid sample: the code's own comment has it that the track must be enabled and not
  muted. With settings of 640 by 480 on the track the callback counts the tick all the
  same. In the middle of a streak it raises the counter from 7 to 8 where it should
  set it to zero, and 20 such ticks in a row pass the streak check. A tick without a
  video element, by contrast, sets the counter to zero.
\<close>

theorem muted_track_keeps_streak:
  "\<not> valid_sample muted_page \<and> counted_tick muted_page \<and>
   checkCapture muted_page seven_counted =
     Waiting \<lparr>captureAttempts = 10, validCaptureCount = 8\<rparr> \<and>
   setInterval (replicate 20 muted_page) capture_start =
     Proceed \<lparr>captureAttempts = 20, validCaptureCount = 20\<rparr> \<and>
   \<not> valid_sample disabled_page \<and> counted_tick disabled_page \<and>
   checkCapture disabled_page seven_counted =
     Waiting \<lparr>captureAttempts = 10, validCaptureCount = 8\<rparr> \<and>
   \<not> valid_sample empty_page \<and> \<not> counted_tick empty_page \<and>
   checkCapture empty_page seven_counted =
     Waiting \<lparr>captureAttempts = 10, validCaptureCount = 0\<rparr> \<and>
   valid_sample live_page \<and> counted_tick live_page"
  by code_simp
section \<open>Properties of the content check\<close>






















end
